theory Spec2Isabelle
  imports Main "HOL-Library.AList" "HOL-Library.List_Lexorder" "HOL-Library.Char_ord" "HOL-Library.Multiset"
begin

section \<open>Values, tasks and the graph record\<close>

text \<open>
  A shallow embedding of \<^verbatim>\<open>src/ObjectGraph.es6.js\<close> and \<^verbatim>\<open>src/TaskQueue.js\<close>.

  JavaScript values are a datatype. Objects and functions are references into a heap
  (section "The inspected heap"). A number carries a natural: the only numbers the
  program computes with are object identities (\<^verbatim>\<open>o.$UID\<close>) and the type sentinels 1..7.
\<close>

type_synonym ref = nat

datatype jsval =
    JUndefined
  | JNull
  | JBoolean bool
  | JNumber nat
  | JString string
  | JSymbol nat
  | JObject ref
  | JFunction ref

text \<open>
  What the program can throw. \<^verbatim>\<open>NonNumericRoot\<close> is not a JavaScript exception: it marks
  the one place where the model stops, a \<^verbatim>\<open>lookup\<close> that starts from a \<^verbatim>\<open>this.root\<close> that is
  not a number (the capture root was a primitive or a function, see \<^verbatim>\<open>capture\<close>); the
  coercions JavaScript would then apply in \<^verbatim>\<open>isType\<close> and \<^verbatim>\<open>data[id]\<close> are not modelled.
  \<^verbatim>\<open>InheritedMember\<close> is the other such place: \<^verbatim>\<open>lookup_\<close> has read, as \<^verbatim>\<open>data[id][name]\<close>, a
  member that the plain object \<^verbatim>\<open>data[id]\<close> inherits from \<^verbatim>\<open>Object.prototype\<close>, and goes on
  with a function where an identity is expected.
\<close>

datatype error =
    TypeError
  | AssertionError string
  | ReferenceError
  | NonNumericRoot jsval
  | InheritedMember string

text \<open>
  \<^verbatim>\<open>console.assert\<close> is a primitive of the host. In Node.js before version 10 a failed
  assertion throws an AssertionError; in browsers and in later Node.js it only logs.
  The host's choice is a parameter of every function that asserts.
\<close>

datatype assert_mode = AssertThrows | AssertLogs

text \<open>
  The work items \<^verbatim>\<open>visitObject\<close> enqueues are closures
  \<^verbatim>\<open>this.visitPrototype.bind(this, o, dataMap)\<close>,
  \<^verbatim>\<open>this.visitPropertyDescriptors.bind(this, o, metadataMap)\<close> and
  \<^verbatim>\<open>this.visitProperty.bind(this, o, names[i], dataMap)\<close>. The bound \<^verbatim>\<open>dataMap\<close> is the
  object stored at \<^verbatim>\<open>data[o.$UID]\<close> (and \<^verbatim>\<open>metadataMap\<close> the one at \<^verbatim>\<open>metadata[o.$UID]\<close>),
  so a task is determined by \<^verbatim>\<open>o\<close> and the property name.
\<close>

datatype task =
    VisitPrototype jsval
  | VisitPropertyDescriptors jsval
  | VisitProperty jsval string

text \<open>
  Callbacks. A user's callback is opaque code, identified by a number; calling it is
  recorded in the trace of the run (\<^verbatim>\<open>calls\<close> below) and is assumed not to touch the graph.
  \<^verbatim>\<open>CaptureDone prev cb\<close> is the closure \<^verbatim>\<open>capture\<close> installs as \<^verbatim>\<open>q.onDone\<close> on its normal
  path (\<^verbatim>\<open>prev\<close> is \<^verbatim>\<open>prevOnDone\<close>, \<^verbatim>\<open>cb\<close> is \<^verbatim>\<open>opts.onDone\<close>); \<^verbatim>\<open>Deferred prev o k cb\<close> is the
  closure it installs when the graph is busy (\<^verbatim>\<open>k\<close> is \<^verbatim>\<open>opts.key\<close>).
\<close>

datatype callback =
    Noop
  | UserFn nat
  | CaptureDone callback "nat option"
  | Deferred callback jsval "string option" "nat option"

record TaskQueue =
  queue :: "task list"                \<comment> \<open>\<^verbatim>\<open>this.q\<close> of TaskQueue.js\<close>
  maxDequeueSize :: nat
  onTick :: callback
  onDone :: callback

record ObjectGraph =
  q :: TaskQueue
  busy :: bool
  blacklistedObjects :: "jsval list"
  blacklistedKeys :: "string list"
  keysCache :: "(nat \<times> string list) list"
  userAgent :: string
  timestamp :: "nat option"
  key :: string
  root :: jsval
  data :: "(nat \<times> (string \<times> nat) list) list"
  metadata :: "(nat \<times> (string \<times> (string \<times> nat) list) list) list"
  protos :: "(nat \<times> nat) list"
  functions' :: "nat list"               \<comment> \<open>\<^verbatim>\<open>this.functions\<close>\<close>
  lazyData :: "((nat \<times> (string \<times> nat) list) list \<times> (nat \<times> nat) list) option"

text \<open>
  The JavaScript objects used as dictionaries (\<^verbatim>\<open>data\<close>, \<^verbatim>\<open>data[id]\<close>, \<^verbatim>\<open>protos\<close>,
  \<^verbatim>\<open>metadata\<close>, \<^verbatim>\<open>keysCache\<close>) are association lists: \<^verbatim>\<open>obj[k]\<close> is \<^term>\<open>map_of obj k\<close>
  (\<^term>\<open>None\<close> is \<^verbatim>\<open>undefined\<close>), \<^verbatim>\<open>obj[k] = v\<close> is \<^term>\<open>AList.update k v obj\<close> and
  \<^verbatim>\<open>delete obj[k]\<close> is \<^term>\<open>AList.delete k obj\<close>. The association list holds the own
  properties. \<^verbatim>\<open>data[id]\<close> is created as \<^verbatim>\<open>{}\<close>, so a read \<^verbatim>\<open>data[id][name]\<close> of a name that is
  not an own property finds the members inherited from \<^verbatim>\<open>Object.prototype\<close>
  (\<open>object_prototype_names\<close> below); the other dictionaries are read at identities and at
  own names only.
\<close>

section \<open>Type sentinels\<close>

definition FIRST_TYPE :: nat where
  "FIRST_TYPE = 1"

definition LAST_TYPE :: nat where
  "LAST_TYPE = 7"

definition types :: "(string \<times> nat) list" where
  "types = [(''undefined'', 1), (''boolean'', 2), (''number'', 3), (''string'', 4),
            (''symbol'', 5), (''null'', 6), (''exception'', 7)]"

definition types_null :: nat where
  "types_null = 6"

definition types_exception :: nat where
  "types_exception = 7"

text \<open>\<^verbatim>\<open>isType(id)\<close>: \<^verbatim>\<open>id >= FIRST_TYPE && id <= LAST_TYPE\<close>.\<close>

definition isType :: "nat \<Rightarrow> bool" where
  "isType i = (FIRST_TYPE \<le> i \<and> i \<le> LAST_TYPE)"

text \<open>
  \<^verbatim>\<open>isType(this.data[id][key])\<close> where the entry may be \<^verbatim>\<open>undefined\<close>:
  \<^verbatim>\<open>undefined >= 1\<close> is false.
\<close>

definition isType_opt :: "nat option \<Rightarrow> bool" where
  "isType_opt v = (case v of None \<Rightarrow> False | Some i \<Rightarrow> isType i)"

text \<open>
  The note above \<^verbatim>\<open>FIRST_TYPE\<close> in the source: "It must be impossible for $UIDs of
  visited objects to take on these values." The code also treats an identity as truthy
  (\<^verbatim>\<open>id || null\<close>, \<^verbatim>\<open>opt_root || this.root\<close>, \<^verbatim>\<open>if ( ! id ) return false\<close>). An identity is
  therefore a number above the sentinels.
\<close>

definition identity :: "nat \<Rightarrow> bool" where
  "identity i = (LAST_TYPE < i)"

text \<open>\<^verbatim>\<open>isKeyBlacklisted(name)\<close>: a linear search of \<^verbatim>\<open>this.blacklistedKeys\<close>.\<close>

definition default_blacklistedKeys :: "string list" where
  "default_blacklistedKeys = [''$UID'', ''$UID__'', ''__proto__'']"

definition isKeyBlacklisted :: "ObjectGraph \<Rightarrow> string \<Rightarrow> bool" where
  "isKeyBlacklisted g name = (name \<in> set (blacklistedKeys g))"

section \<open>Forward lookup\<close>

text \<open>\<^verbatim>\<open>getPrototype(id)\<close>: \<^verbatim>\<open>this.protos[id] || this.types['null']\<close>.\<close>

definition getPrototype :: "ObjectGraph \<Rightarrow> nat \<Rightarrow> nat" where
  "getPrototype g i =
     (case map_of (protos g) i of
        None \<Rightarrow> types_null
      | Some p \<Rightarrow> if p \<noteq> 0 then p else types_null)"

text \<open>
  The inner loop of \<^verbatim>\<open>lookup_\<close>:
  \<^verbatim>\<open>while ( ! this.isType(id) && ! ( nextId = this.data[id][name] ) ) id = this.getPrototype(id);\<close>
  It can run forever on a cyclic \<^verbatim>\<open>protos\<close>, so not returning is the value \<^term>\<open>None\<close>.
  It throws a TypeError when \<^verbatim>\<open>this.data[id]\<close> is \<^verbatim>\<open>undefined\<close>. Otherwise it ends either
  because \<^verbatim>\<open>id\<close> is a type sentinel (result \<^term>\<open>Inr None\<close>: the code then returns null and
  never reads \<^verbatim>\<open>nextId\<close>), or because a truthy \<^verbatim>\<open>nextId\<close> was found (result
  \<^term>\<open>Inr (Some nextId)\<close>). An own property shadows an inherited one, also when its value
  is falsy. Where \<^verbatim>\<open>name\<close> is not an own property of \<^verbatim>\<open>data[id]\<close> and is a member of
  \<^verbatim>\<open>Object.prototype\<close>, the read yields that member, a function, which is truthy.
\<close>

definition object_prototype_names :: "string list" where
  "object_prototype_names =
     [''constructor'', ''hasOwnProperty'', ''isPrototypeOf'', ''propertyIsEnumerable'',
      ''toLocaleString'', ''toString'', ''valueOf'', ''__defineGetter__'', ''__defineSetter__'',
      ''__lookupGetter__'', ''__lookupSetter__'']"

partial_function (option) lookup_walk ::
  "ObjectGraph \<Rightarrow> string \<Rightarrow> nat \<Rightarrow> (error + nat option) option" where
  "lookup_walk g name i =
     (if isType i then Some (Inr None)
      else (case map_of (data g) i of
              None \<Rightarrow> Some (Inl TypeError)
            | Some dataMap \<Rightarrow>
                (case map_of dataMap name of
                   None \<Rightarrow>
                     if name \<in> set object_prototype_names then Some (Inl (InheritedMember name))
                     else lookup_walk g name (getPrototype g i)
                 | Some nextId \<Rightarrow>
                     if nextId \<noteq> 0 then Some (Inr (Some nextId))
                     else lookup_walk g name (getPrototype g i))))"

declare lookup_walk.simps [code]

text \<open>
  The \<^verbatim>\<open>for\<close> loop of \<^verbatim>\<open>lookup_\<close> over the path. \<^term>\<open>Inr None\<close> is the early
  \<^verbatim>\<open>return null\<close>; \<^term>\<open>Inr (Some i)\<close> is the value of \<^verbatim>\<open>id\<close> when the path is used up.
\<close>

fun lookup_loop :: "ObjectGraph \<Rightarrow> string list \<Rightarrow> nat \<Rightarrow> (error + nat option) option" where
  "lookup_loop g [] i = Some (Inr (Some i))"
| "lookup_loop g (name # path) i =
     (if name = ''__proto__'' then
        (let nextId = getPrototype g i
         in if isType i then Some (Inr None) else lookup_loop g path nextId)
      else
        (case lookup_walk g name i of
           None \<Rightarrow> None
         | Some (Inl e) \<Rightarrow> Some (Inl e)
         | Some (Inr None) \<Rightarrow> Some (Inr None)
         | Some (Inr (Some nextId)) \<Rightarrow> lookup_loop g path nextId))"

text \<open>
  The final \<^verbatim>\<open>return id || null\<close>, and \<^verbatim>\<open>lookup_\<close> itself (written \<open>lookup'\<close>: a name
  cannot end with an underscore here).
\<close>

definition or_null :: "nat \<Rightarrow> nat option" where
  "or_null i = (if i \<noteq> 0 then Some i else None)"

definition lookup' :: "ObjectGraph \<Rightarrow> string list \<Rightarrow> nat \<Rightarrow> (error + nat option) option" where
  "lookup' g path rt =
     (case lookup_loop g path rt of
        None \<Rightarrow> None
      | Some (Inl e) \<Rightarrow> Some (Inl e)
      | Some (Inr None) \<Rightarrow> Some (Inr None)
      | Some (Inr (Some i)) \<Rightarrow> Some (Inr (or_null i)))"

text \<open>
  \<^verbatim>\<open>String.prototype.split\<close> with a one-character separator: \<^verbatim>\<open>''.split('.')\<close> is
  \<^verbatim>\<open>['']\<close>, \<^verbatim>\<open>'.a'.split('.')\<close> is \<^verbatim>\<open>['', 'a']\<close>.
\<close>

fun split :: "char \<Rightarrow> string \<Rightarrow> string list" where
  "split sep [] = [[]]"
| "split sep (c # cs) =
     (if c = sep then [] # split sep cs
      else (case split sep cs of
              [] \<Rightarrow> [[c]]
            | w # ws \<Rightarrow> (c # w) # ws))"

text \<open>
  \<^verbatim>\<open>lookup(key, opt_root)\<close>: \<^verbatim>\<open>var root = opt_root || this.root\<close>. \<^verbatim>\<open>opt_root\<close> is an
  identity or is left out (\<^term>\<open>None\<close>).
\<close>

definition lookup :: "ObjectGraph \<Rightarrow> string \<Rightarrow> nat option \<Rightarrow> (error + nat option) option" where
  "lookup g k opt_root =
     (case (case opt_root of
              None \<Rightarrow> root g
            | Some r \<Rightarrow> if r \<noteq> 0 then JNumber r else root g) of
        JNumber r \<Rightarrow> lookup' g (split CHR ''.'' k) r
      | v \<Rightarrow> Some (Inl (NonNumericRoot v)))"


section \<open>Lazy data\<close>

text \<open>
  \<^verbatim>\<open>initLazyData\<close> defines the memoised properties, among them
  \<^verbatim>\<open>stdlib.memo(this, 'invData', remap['a:b:c=>c:b:[a]'].bind(this, this.data))\<close> and
  \<^verbatim>\<open>stdlib.memo(this, 'invProtos', remap['a:b=>b:[a]'].bind(this, this.protos))\<close>. The field
  \<open>lazyData\<close> holds the two objects bound there, \<^verbatim>\<open>this.data\<close> and \<^verbatim>\<open>this.protos\<close> as they are
  when \<^verbatim>\<open>initLazyData\<close> runs; it is \<^term>\<open>None\<close> until \<^verbatim>\<open>initLazyData\<close> has run, and then
  \<^verbatim>\<open>this.invData\<close> and \<^verbatim>\<open>this.invProtos\<close> are \<^verbatim>\<open>undefined\<close>. Every later \<^verbatim>\<open>initLazyData\<close> binds
  anew. \<^verbatim>\<open>capture\<close> assigns fresh objects to \<^verbatim>\<open>this.data\<close> and \<^verbatim>\<open>this.protos\<close> and calls
  \<^verbatim>\<open>initLazyData\<close> only when the queue has drained, so during a capture the indices are
  still those of the objects bound before. (\<^verbatim>\<open>stdlib.memo\<close> belongs to ya-stdlib-js, not in
  src; the model takes it to define the property anew at every call. A memoised index is
  computed at its first use; the bound objects do not change between \<^verbatim>\<open>initLazyData\<close> and
  that use, except when a removal runs while a capture is in flight, a case the model does
  not follow.)
\<close>

definition initLazyData :: "ObjectGraph \<Rightarrow> ObjectGraph" where
  "initLazyData g = g\<lparr>lazyData := Some (data g, protos g)\<rparr>"

section \<open>Removal\<close>

text \<open>
  \<^verbatim>\<open>removeIds(ids)\<close>. \<^verbatim>\<open>_.difference(this.functions, ids)\<close> keeps, in order, the elements of
  \<^verbatim>\<open>this.functions\<close> that are not in \<^verbatim>\<open>ids\<close>. \<^verbatim>\<open>keysCache\<close> is left as it is.
\<close>

definition removeIds_step :: "nat \<Rightarrow> ObjectGraph \<Rightarrow> ObjectGraph" where
  "removeIds_step i g =
     g\<lparr>data := AList.delete i (data g),
       protos := AList.delete i (protos g),
       metadata := AList.delete i (metadata g)\<rparr>"

definition removeIds :: "ObjectGraph \<Rightarrow> nat list \<Rightarrow> ObjectGraph" where
  "removeIds g ids =
     (let g' = fold removeIds_step ids g
      in initLazyData (g'\<lparr>functions' := filter (\<lambda>f. f \<notin> set ids) (functions' g')\<rparr>))"

text \<open>Decimal numerals: \<^verbatim>\<open>String(n)\<close> of a natural \<^verbatim>\<open>n\<close>, and \<^verbatim>\<open>parseInt\<close> on digits.\<close>

definition digit :: "nat \<Rightarrow> char" where
  "digit d = char_of (48 + d)"

function decimal :: "nat \<Rightarrow> string" where
  "decimal n = (if n < 10 then [digit n] else decimal (n div 10) @ [digit (n mod 10)])"
  by pat_completeness auto
termination
  by (relation "measure id") auto

declare decimal.simps [simp del]

definition parseInt :: "string \<Rightarrow> nat" where
  "parseInt s = foldl (\<lambda>acc c. 10 * acc + (of_char c - 48)) 0 s"

text \<open>
  The data entry \<^verbatim>\<open>this.data[id][key]\<close>, \<^term>\<open>None\<close> when \<^verbatim>\<open>data[id]\<close> or the entry is
  \<^verbatim>\<open>undefined\<close>.
\<close>

definition entry :: "ObjectGraph \<Rightarrow> nat \<Rightarrow> string \<Rightarrow> nat option" where
  "entry g i k = (case map_of (data g) i of None \<Rightarrow> None | Some dataMap \<Rightarrow> map_of dataMap k)"

text \<open>
  \<^verbatim>\<open>removePrimitives(idKeyPairs)\<close>. The result pairs what was thrown (if anything) with
  the graph as the call left it. With a \<^verbatim>\<open>console.assert\<close> that only logs, the \<^verbatim>\<open>delete\<close>
  runs whatever the entry is, and throws a TypeError when \<^verbatim>\<open>data[id]\<close> is \<^verbatim>\<open>undefined\<close>.
  \<^verbatim>\<open>initLazyData\<close> runs after the loop.
\<close>

definition removePrimitives_message :: "nat \<Rightarrow> string \<Rightarrow> string" where
  "removePrimitives_message i k =
     ''Attempt to remove non-primitive, '' @ decimal i @ '' . '' @ k @ '', with removePrimitives()''"

fun removePrimitives ::
  "assert_mode \<Rightarrow> ObjectGraph \<Rightarrow> (nat \<times> string) list \<Rightarrow> error option \<times> ObjectGraph" where
  "removePrimitives am g [] = (None, initLazyData g)"
| "removePrimitives am g ((i, k) # idKeyPairs) =
     (let ok = (case map_of (data g) i of
                  None \<Rightarrow> False
                | Some dataMap \<Rightarrow> isType_opt (map_of dataMap k))
      in if \<not> ok \<and> am = AssertThrows
         then (Some (AssertionError (removePrimitives_message i k)), g)
         else (case map_of (data g) i of
                 None \<Rightarrow> (Some TypeError, g)
               | Some dataMap \<Rightarrow>
                   removePrimitives am
                     (g\<lparr>data := AList.update i (AList.delete k dataMap) (data g)\<rparr>)
                     idKeyPairs))"

section \<open>All identities\<close>

text \<open>
  \<^verbatim>\<open>Object.getOwnPropertyNames\<close> of an object whose keys are identities lists them in
  ascending numeric order (integer keys come first, ascending).
\<close>

definition ownIds :: "(nat \<times> 'a) list \<Rightarrow> nat list" where
  "ownIds obj = sort (remdups (map fst obj))"

text \<open>
  \<^verbatim>\<open>getAllIds_\<close>. \<^verbatim>\<open>ids.sort()\<close> has no comparison function, so the elements are compared
  as strings, by code units: the order of \<^typ>\<open>string\<close> from List_Lexorder and Char_ord.
\<close>

definition getAllIds' :: "ObjectGraph \<Rightarrow> nat list" where
  "getAllIds' g =
     (let strIds = map decimal (ownIds (data g));
          ids = map parseInt (filter (\<lambda>s. \<not> isKeyBlacklisted g s) strIds)
      in sort_key decimal ids)"

definition getAllIds :: "ObjectGraph \<Rightarrow> nat list" where
  "getAllIds g = getAllIds' g"


section \<open>Derived indices\<close>

text \<open>
  Modelled from the spec: the index builders \<^verbatim>\<open>remap['a:b:c=>c:b:[a]']\<close> and
  \<^verbatim>\<open>remap['a:b=>b:[a]']\<close> belong to the package ya-stdlib-js, which is not in src. The spec:
  "inverse-data: identity -> property name -> set of identities that reference it under
  that name" and "inverse-protos: identity -> set of identities whose delegation parent it
  is". The referencing identities are listed in the order in which \<^verbatim>\<open>data\<close> (or \<^verbatim>\<open>protos\<close>)
  enumerates them; no theorem below depends on that order.
\<close>

definition dataEntries :: "(nat \<times> (string \<times> nat) list) list \<Rightarrow> (nat \<times> string \<times> nat) list" where
  "dataEntries d =
     concat (map (\<lambda>a. case map_of d a of
                          None \<Rightarrow> []
                        | Some dataMap \<Rightarrow> map (\<lambda>(b, c). (a, b, c)) (AList.clearjunk dataMap))
                 (ownIds d))"

definition remap_data ::
  "(nat \<times> (string \<times> nat) list) list \<Rightarrow> nat \<Rightarrow> (string \<times> nat list) list option" where
  "remap_data d c =
     (let es = filter (\<lambda>(a, b, c'). c' = c) (dataEntries d);
          names = remdups (map (\<lambda>(a, b, c'). b) es)
      in if names = [] then None
         else Some (map (\<lambda>b. (b, map fst (filter (\<lambda>(a, b', c'). b' = b) es))) names))"

definition remap_protos :: "(nat \<times> nat) list \<Rightarrow> nat \<Rightarrow> nat list option" where
  "remap_protos ps p =
     (let ids = filter (\<lambda>a. map_of ps a = Some p) (ownIds ps)
      in if ids = [] then None else Some ids)"

text \<open>
  \<^verbatim>\<open>this.invData\<close> and \<^verbatim>\<open>this.invProtos\<close>: \<^term>\<open>None\<close> is \<^verbatim>\<open>undefined\<close>, the state before the
  first \<^verbatim>\<open>initLazyData\<close>; otherwise the index of the object that \<^verbatim>\<open>initLazyData\<close> bound.
\<close>

definition invData :: "ObjectGraph \<Rightarrow> (nat \<Rightarrow> (string \<times> nat list) list option) option" where
  "invData g = map_option (\<lambda>(d, ps). remap_data d) (lazyData g)"

definition invProtos :: "ObjectGraph \<Rightarrow> (nat \<Rightarrow> nat list option) option" where
  "invProtos g = map_option (\<lambda>(d, ps). remap_protos ps) (lazyData g)"

section \<open>Reverse lookup\<close>

text \<open>
  \<^verbatim>\<open>getKeys_(id, seen)\<close> recurses through two loops and mutates \<^verbatim>\<open>seen\<close>, one object shared
  by the whole recursion. The model passes \<^verbatim>\<open>seen\<close> in and out. The recursion is driven
  by fuel: one unit for each nested call, \<^term>\<open>None\<close> when it runs out (theorem
  \<open>getKeys'_returns\<close>: it never does with the fuel \<^verbatim>\<open>getKeys\<close> gives). In the loops
  \<open>rec\<close> stands for the recursive call \<^verbatim>\<open>this.getKeys_(parseInt(invId), seen)\<close>; what it
  throws goes on.

  The body of both inner loops: \<^verbatim>\<open>if ( seen[invId] ) continue;\<close> and
  \<^verbatim>\<open>allKeys = allKeys.concat(this.getKeys_(...).map(prefix => prefix + '.' + key))\<close>.
\<close>

fun getKeys_ids ::
  "(nat \<Rightarrow> nat set \<Rightarrow> (error + string list \<times> nat set) option) \<Rightarrow> string \<Rightarrow> nat list \<Rightarrow>
   string list \<times> nat set \<Rightarrow> (error + string list \<times> nat set) option" where
  "getKeys_ids rec k [] acc = Some (Inr acc)"
| "getKeys_ids rec k (invId # ids) (allKeys, seen) =
     (if invId \<in> seen then getKeys_ids rec k ids (allKeys, seen)
      else (case rec invId seen of
              None \<Rightarrow> None
            | Some (Inl err) \<Rightarrow> Some (Inl err)
            | Some (Inr (prefixes, seen')) \<Rightarrow>
                getKeys_ids rec k ids
                  (allKeys @ map (\<lambda>prefix. prefix @ ''.'' @ k) prefixes, seen')))"

text \<open>
  The outer loop over \<^verbatim>\<open>Object.getOwnPropertyNames(map).sort()\<close>, here the entries of
  \<^verbatim>\<open>map\<close> sorted by name.
\<close>

fun getKeys_keys ::
  "ObjectGraph \<Rightarrow> (nat \<Rightarrow> nat set \<Rightarrow> (error + string list \<times> nat set) option) \<Rightarrow>
   (string \<times> nat list) list \<Rightarrow> string list \<times> nat set \<Rightarrow>
   (error + string list \<times> nat set) option" where
  "getKeys_keys g rec [] acc = Some (Inr acc)"
| "getKeys_keys g rec ((k, ids) # keys) acc =
     (if isKeyBlacklisted g k then getKeys_keys g rec keys acc
      else (case getKeys_ids rec k ids acc of
              None \<Rightarrow> None
            | Some (Inl err) \<Rightarrow> Some (Inl err)
            | Some (Inr acc') \<Rightarrow> getKeys_keys g rec keys acc'))"

text \<open>
  \<^verbatim>\<open>getKeys_\<close> (written \<open>getKeys'\<close>). The root is answered before any index is read.
  \<^verbatim>\<open>this.invData[id]\<close> and \<^verbatim>\<open>this.invProtos[id]\<close> throw a TypeError while the index is
  \<^verbatim>\<open>undefined\<close>.
\<close>

primrec getKeys' ::
  "nat \<Rightarrow> ObjectGraph \<Rightarrow> nat \<Rightarrow> nat set \<Rightarrow> (error + string list \<times> nat set) option" where
  "getKeys' 0 g i seen = None"
| "getKeys' (Suc fuel) g i seen =
     (let seen1 = insert i seen
      in if root g = JNumber i then Some (Inr ([key g], seen1))
         else (case invData g of
                 None \<Rightarrow> Some (Inl TypeError)
               | Some dataIndex \<Rightarrow>
                   (case dataIndex i of
                      None \<Rightarrow> Some (Inr ([], seen1))
                    | Some m \<Rightarrow>
                        (case getKeys_keys g (getKeys' fuel g) (sort_key fst m) ([], seen1) of
                           None \<Rightarrow> None
                         | Some (Inl err) \<Rightarrow> Some (Inl err)
                         | Some (Inr (allKeys, seen2)) \<Rightarrow>
                             (case invProtos g of
                                None \<Rightarrow> Some (Inl TypeError)
                              | Some protoIndex \<Rightarrow>
                                  (case protoIndex i of
                                     None \<Rightarrow> Some (Inr (allKeys, seen2))
                                   | Some ips \<Rightarrow>
                                       getKeys_ids (getKeys' fuel g) ''__proto__'' ips
                                         (allKeys, seen2)))))))"

text \<open>The fuel: one more than the number of entries of the bound \<^verbatim>\<open>data\<close> and \<^verbatim>\<open>protos\<close>.\<close>

definition getKeys_fuel :: "ObjectGraph \<Rightarrow> nat" where
  "getKeys_fuel g =
     (case lazyData g of None \<Rightarrow> 1 | Some (d, ps) \<Rightarrow> Suc (length d + length ps))"

text \<open>
  The comparison function \<^verbatim>\<open>getKeys\<close> passes to \<^verbatim>\<open>sort\<close>:
  \<^verbatim>\<open>a.length === b.length ? a > b : a.length - b.length\<close>. For equal lengths it yields a
  boolean (1 or 0 as a number), never a negative number, so it is not a consistent
  comparison function; what \<^verbatim>\<open>Array.prototype.sort\<close> then returns depends on the host. The
  host's \<^verbatim>\<open>sort\<close> is a parameter of \<^verbatim>\<open>getKeys\<close>; the theorems ask of it only that it returns
  a permutation of its input (\<open>host_sort\<close>).
\<close>

type_synonym sort_fn = "(string \<Rightarrow> string \<Rightarrow> int) \<Rightarrow> string list \<Rightarrow> string list"

definition host_sort :: "sort_fn \<Rightarrow> bool" where
  "host_sort srt = (\<forall>cmp xs. mset (srt cmp xs) = mset xs)"

definition getKeys_compare :: "string \<Rightarrow> string \<Rightarrow> int" where
  "getKeys_compare a b =
     (if length a = length b then (if a > b then 1 else 0)
      else int (length a) - int (length b))"

text \<open>
  \<^verbatim>\<open>getKeys(id)\<close> returns the keys and leaves them in \<^verbatim>\<open>keysCache\<close>; the model returns the
  keys and the graph. A cached array is truthy even when empty.
\<close>

definition getKeys ::
  "sort_fn \<Rightarrow> ObjectGraph \<Rightarrow> nat \<Rightarrow> (error + string list \<times> ObjectGraph) option" where
  "getKeys srt g i =
     (case map_of (keysCache g) i of
        Some keys \<Rightarrow> Some (Inr (keys, g))
      | None \<Rightarrow>
          (case getKeys' (getKeys_fuel g) g i {} of
             None \<Rightarrow> None
           | Some (Inl err) \<Rightarrow> Some (Inl err)
           | Some (Inr (allKeys, seen)) \<Rightarrow>
               (let keys = srt getKeys_compare allKeys
                in Some (Inr (keys, g\<lparr>keysCache := AList.update i keys (keysCache g)\<rparr>)))))"

text \<open>\<^verbatim>\<open>getShortestKey(id)\<close>: \<^verbatim>\<open>this.getKeys(id)[0] || null\<close>; \<^term>\<open>None\<close> is null.\<close>

definition first_or_null :: "string list \<Rightarrow> string option" where
  "first_or_null keys = (case keys of [] \<Rightarrow> None | k # _ \<Rightarrow> if k \<noteq> [] then Some k else None)"

definition getShortestKey ::
  "sort_fn \<Rightarrow> ObjectGraph \<Rightarrow> nat \<Rightarrow> (error + string option \<times> ObjectGraph) option" where
  "getShortestKey srt g i =
     (case getKeys srt g i of
        None \<Rightarrow> None
      | Some (Inl err) \<Rightarrow> Some (Inl err)
      | Some (Inr (keys, g')) \<Rightarrow> Some (Inr (first_or_null keys, g')))"

text \<open>\<^verbatim>\<open>getAllKeys_\<close>: the map from every identity of \<^verbatim>\<open>getAllIds()\<close> to its keys.\<close>

fun getAllKeys_loop ::
  "sort_fn \<Rightarrow> ObjectGraph \<Rightarrow> nat list \<Rightarrow> (nat \<times> string list) list \<Rightarrow>
   (error + (nat \<times> string list) list \<times> ObjectGraph) option" where
  "getAllKeys_loop srt g [] m = Some (Inr (m, g))"
| "getAllKeys_loop srt g (i # ids) m =
     (case getKeys srt g i of
        None \<Rightarrow> None
      | Some (Inl err) \<Rightarrow> Some (Inl err)
      | Some (Inr (keys, g')) \<Rightarrow> getAllKeys_loop srt g' ids (AList.update i keys m))"

definition getAllKeys ::
  "sort_fn \<Rightarrow> ObjectGraph \<Rightarrow> (error + (nat \<times> string list) list \<times> ObjectGraph) option" where
  "getAllKeys srt g = getAllKeys_loop srt g (getAllIds g) []"

section \<open>Serialization\<close>

text \<open>
  The record \<^verbatim>\<open>toJSON\<close> returns holds the fields named in \<^verbatim>\<open>ObjectGraph.jsonKeys\<close>. A graph
  has no property \<^verbatim>\<open>keys\<close>, so that field is \<^verbatim>\<open>undefined\<close>.
\<close>

record JSON =
  json_blacklistedKeys :: "string list"
  json_data :: "(nat \<times> (string \<times> nat) list) list"
  json_functions :: "nat list"
  json_key :: string
  json_keys :: jsval
  json_metadata :: "(nat \<times> (string \<times> (string \<times> nat) list) list) list"
  json_protos :: "(nat \<times> nat) list"
  json_root :: jsval
  json_timestamp :: "nat option"
  json_types :: "(string \<times> nat) list"
  json_userAgent :: string

definition toJSON :: "ObjectGraph \<Rightarrow> JSON" where
  "toJSON g =
     \<lparr>json_blacklistedKeys = blacklistedKeys g, json_data = data g,
      json_functions = functions' g, json_key = key g, json_keys = JUndefined,
      json_metadata = metadata g, json_protos = protos g, json_root = root g,
      json_timestamp = timestamp g, json_types = types, json_userAgent = userAgent g\<rparr>"

text \<open>
  \<^verbatim>\<open>new ObjectGraph()\<close>: \<^verbatim>\<open>init\<close> with empty options. \<open>ua\<close> is the host's user agent string,
  \<open>classBlacklist\<close> the list \<^verbatim>\<open>ObjectGraph.prototype.blacklistedObjects\<close> and \<open>self\<close> the new
  object itself. The fields that only \<^verbatim>\<open>capture\<close> or \<^verbatim>\<open>fromJSON\<close> assign are \<^verbatim>\<open>undefined\<close>
  until then; the record holds empty values for them.
\<close>

definition newTaskQueue :: TaskQueue where
  "newTaskQueue = \<lparr>queue = [], maxDequeueSize = 10, onTick = Noop, onDone = Noop\<rparr>"

definition newObjectGraph :: "string \<Rightarrow> jsval list \<Rightarrow> jsval \<Rightarrow> ObjectGraph" where
  "newObjectGraph ua classBlacklist self =
     \<lparr>q = newTaskQueue, busy = False, blacklistedObjects = classBlacklist @ [self],
      blacklistedKeys = default_blacklistedKeys, keysCache = [], userAgent = ua,
      timestamp = None, key = [], root = JUndefined, data = [], metadata = [],
      protos = [], functions' = [], lazyData = None\<rparr>"

definition fromJSON :: "string \<Rightarrow> jsval list \<Rightarrow> jsval \<Rightarrow> JSON \<Rightarrow> ObjectGraph" where
  "fromJSON ua classBlacklist self o' =
     initLazyData
       ((newObjectGraph ua classBlacklist self)
          \<lparr>blacklistedKeys := json_blacklistedKeys o', data := json_data o',
           functions' := json_functions o', key := json_key o', metadata := json_metadata o',
           protos := json_protos o', root := json_root o', timestamp := json_timestamp o',
           userAgent := json_userAgent o'\<rparr>)"


section \<open>The inspected heap\<close>

text \<open>
  What \<^verbatim>\<open>capture\<close> reads of the objects it inspects. Reading a property either yields a
  value or throws (a hostile getter); \<^verbatim>\<open>Object.getOwnPropertyDescriptor\<close> yields a descriptor
  (here the truthiness of each of its parts, which is all \<^verbatim>\<open>stdlib.mapMap\<close> keeps) or
  nothing. \<open>ownProperties\<close> lists the own properties in the order of
  \<^verbatim>\<open>Object.getOwnPropertyNames\<close>.

  Modelled from the spec: the getter \<^verbatim>\<open>$UID\<close> (ya-stdlib-js) is not in src. The spec:
  "Every visited object receives a unique, process-local non-negative integer (its graph
  identity), assumed distinct from every primitive-type sentinel". \<open>UID\<close> is that
  integer; \<open>heap_ok\<close> states the assumption.
\<close>

datatype slot = Value jsval | Throws

record property =
  slot :: slot
  descriptor :: "(string \<times> bool) list option"

record jsobject =
  UID :: nat
  proto :: jsval                                  \<comment> \<open>\<^verbatim>\<open>o.__proto__\<close>\<close>
  ownProperties :: "(string \<times> property) list"

record env =
  heap :: "ref \<Rightarrow> jsobject"
  rewriteName :: "string \<Rightarrow> string"              \<comment> \<open>the name rewriter (not in src)\<close>
  now :: nat                                      \<comment> \<open>\<^verbatim>\<open>(new Date()).getTime()\<close>\<close>

definition heap_ok :: "env \<Rightarrow> bool" where
  "heap_ok e = (\<forall>r r'. identity (UID (heap e r)) \<and> (UID (heap e r) = UID (heap e r') \<longrightarrow> r = r'))"

definition typeof :: "jsval \<Rightarrow> string" where
  "typeof v =
     (case v of
        JUndefined \<Rightarrow> ''undefined''
      | JNull \<Rightarrow> ''object''
      | JBoolean b \<Rightarrow> ''boolean''
      | JNumber n \<Rightarrow> ''number''
      | JString s \<Rightarrow> ''string''
      | JSymbol n \<Rightarrow> ''symbol''
      | JObject r \<Rightarrow> ''object''
      | JFunction r \<Rightarrow> ''function'')"

text \<open>The reference behind an object or a function; \<^term>\<open>None\<close> for a primitive.\<close>

definition refOf :: "jsval \<Rightarrow> ref option" where
  "refOf v = (case v of JObject r \<Rightarrow> Some r | JFunction r \<Rightarrow> Some r | _ \<Rightarrow> None)"

text \<open>
  \<^verbatim>\<open>o.$UID\<close>. The program reads it only of objects and functions; of a primitive the
  model yields 0, which no function below uses.
\<close>

definition uidOf :: "env \<Rightarrow> jsval \<Rightarrow> nat" where
  "uidOf e v = (case refOf v of Some r \<Rightarrow> UID (heap e r) | None \<Rightarrow> 0)"

definition protoOf :: "env \<Rightarrow> jsval \<Rightarrow> jsval" where
  "protoOf e v = (case refOf v of Some r \<Rightarrow> proto (heap e r) | None \<Rightarrow> JUndefined)"

definition getOwnPropertyNames :: "env \<Rightarrow> jsval \<Rightarrow> string list" where
  "getOwnPropertyNames e v =
     (case refOf v of Some r \<Rightarrow> remdups (map fst (ownProperties (heap e r))) | None \<Rightarrow> [])"

text \<open>\<^verbatim>\<open>o[name]\<close> for an own property name of \<^verbatim>\<open>o\<close>.\<close>

definition readProperty :: "env \<Rightarrow> jsval \<Rightarrow> string \<Rightarrow> slot" where
  "readProperty e v name =
     (case refOf v of
        None \<Rightarrow> Value JUndefined
      | Some r \<Rightarrow>
          (case map_of (ownProperties (heap e r)) name of
             None \<Rightarrow> Value JUndefined
           | Some p \<Rightarrow> slot p))"

definition getOwnPropertyDescriptor :: "env \<Rightarrow> jsval \<Rightarrow> string \<Rightarrow> (string \<times> bool) list option" where
  "getOwnPropertyDescriptor e v name =
     (case refOf v of
        None \<Rightarrow> None
      | Some r \<Rightarrow>
          (case map_of (ownProperties (heap e r)) name of
             None \<Rightarrow> None
           | Some p \<Rightarrow> descriptor p))"

section \<open>The graph builder\<close>

text \<open>
  The functions below return what was thrown or returned, paired with the graph as the
  call left it.

  \<^verbatim>\<open>storeObject\<close>, \<^verbatim>\<open>storeMetadata\<close> and \<^verbatim>\<open>storeProto\<close> assert first. Stored maps are truthy
  objects; \<^verbatim>\<open>! this.protos[oId]\<close> is true when the entry is \<^verbatim>\<open>undefined\<close> or 0.
\<close>

definition storeObject :: "assert_mode \<Rightarrow> ObjectGraph \<Rightarrow> nat \<Rightarrow> error option \<times> ObjectGraph" where
  "storeObject am g i =
     (if map_of (data g) i \<noteq> None \<and> am = AssertThrows
      then (Some (AssertionError ''Repeated store-id''), g)
      else (None, g\<lparr>data := AList.update i [] (data g)\<rparr>))"

definition storeMetadata :: "assert_mode \<Rightarrow> ObjectGraph \<Rightarrow> nat \<Rightarrow> error option \<times> ObjectGraph" where
  "storeMetadata am g i =
     (if map_of (metadata g) i \<noteq> None \<and> am = AssertThrows
      then (Some (AssertionError ''Repeated store-metadata-id''), g)
      else (None, g\<lparr>metadata := AList.update i [] (metadata g)\<rparr>))"

definition storeProto ::
  "assert_mode \<Rightarrow> ObjectGraph \<Rightarrow> nat \<Rightarrow> nat \<Rightarrow> error option \<times> ObjectGraph" where
  "storeProto am g oId protoId =
     (if (case map_of (protos g) oId of None \<Rightarrow> False | Some p \<Rightarrow> p \<noteq> 0) \<and> am = AssertThrows
      then (Some (AssertionError ''Repeated store-proto''), g)
      else (None, g\<lparr>protos := AList.update oId protoId (protos g)\<rparr>))"

text \<open>\<^verbatim>\<open>maybeSkip(o)\<close>; \<^term>\<open>None\<close> is its \<^verbatim>\<open>null\<close>.\<close>

definition maybeSkip :: "env \<Rightarrow> ObjectGraph \<Rightarrow> jsval \<Rightarrow> nat option" where
  "maybeSkip e g v =
     (if v = JNull then map_of types ''null''
      else (case map_of types (typeof v) of
              Some t \<Rightarrow> Some t
            | None \<Rightarrow>
                (if map_of (data g) (uidOf e v) \<noteq> None then Some (uidOf e v) else None)))"

text \<open>
  \<^verbatim>\<open>isPropertyBlacklisted(o, key)\<close>: a read that throws is not blacklisted.
\<close>

definition isPropertyBlacklisted :: "env \<Rightarrow> ObjectGraph \<Rightarrow> jsval \<Rightarrow> string \<Rightarrow> bool" where
  "isPropertyBlacklisted e g v name =
     (case readProperty e v name of
        Throws \<Rightarrow> False
      | Value x \<Rightarrow> x \<in> set (blacklistedObjects g))"

definition enqueue :: "ObjectGraph \<Rightarrow> task list \<Rightarrow> ObjectGraph" where
  "enqueue g fs = g\<lparr>q := (q g)\<lparr>queue := queue (q g) @ fs\<rparr>\<rparr>"

text \<open>
  \<^verbatim>\<open>visitObject(o)\<close>. The identity of a function is pushed onto \<^verbatim>\<open>this.functions\<close> before
  \<^verbatim>\<open>storeObject\<close> runs.
\<close>

definition visitObject ::
  "assert_mode \<Rightarrow> env \<Rightarrow> ObjectGraph \<Rightarrow> jsval \<Rightarrow> (error + nat) \<times> ObjectGraph" where
  "visitObject am e g v =
     (case maybeSkip e g v of
        Some skip \<Rightarrow> (Inr skip, g)
      | None \<Rightarrow>
          (let g1 = (if typeof v = ''function''
                     then g\<lparr>functions' := functions' g @ [uidOf e v]\<rparr> else g)
           in case storeObject am g1 (uidOf e v) of
                (Some err, g2) \<Rightarrow> (Inl err, g2)
              | (None, g2) \<Rightarrow>
                  (case storeMetadata am g2 (uidOf e v) of
                     (Some err, g3) \<Rightarrow> (Inl err, g3)
                   | (None, g3) \<Rightarrow>
                       (let g4 = enqueue g3 [VisitPrototype v];
                            g5 = enqueue g4 [VisitPropertyDescriptors v];
                            names = filter (\<lambda>n. \<not> (isKeyBlacklisted g5 n \<or>
                                                     isPropertyBlacklisted e g5 v n))
                                      (getOwnPropertyNames e v);
                            g6 = fold (\<lambda>n g'. enqueue g' [VisitProperty v n]) names g5
                        in (Inr (uidOf e v), g6)))))"

text \<open>
  A write \<^verbatim>\<open>dataMap[name] = x\<close> through the map a task was bound to. That map is the object
  stored at \<^verbatim>\<open>data[o.$UID]\<close> when the task was enqueued; the write goes to the entry at
  \<^verbatim>\<open>o.$UID\<close>, and is lost when that entry has been deleted in between.
\<close>

definition writeData :: "ObjectGraph \<Rightarrow> nat \<Rightarrow> string \<Rightarrow> nat \<Rightarrow> ObjectGraph" where
  "writeData g i name x =
     (case map_of (data g) i of
        None \<Rightarrow> g
      | Some dataMap \<Rightarrow> g\<lparr>data := AList.update i (AList.update name x dataMap) (data g)\<rparr>)"

definition writeMetadata ::
  "ObjectGraph \<Rightarrow> nat \<Rightarrow> string \<Rightarrow> (string \<times> nat) list \<Rightarrow> ObjectGraph" where
  "writeMetadata g i name x =
     (case map_of (metadata g) i of
        None \<Rightarrow> g
      | Some metadataMap \<Rightarrow>
          g\<lparr>metadata := AList.update i (AList.update name x metadataMap) (metadata g)\<rparr>)"

text \<open>\<^verbatim>\<open>visitPrototype(o, dataMap)\<close>: no \<^verbatim>\<open>try\<close>, what \<^verbatim>\<open>visitObject\<close> throws goes on.\<close>

definition visitPrototype ::
  "assert_mode \<Rightarrow> env \<Rightarrow> ObjectGraph \<Rightarrow> jsval \<Rightarrow> error option \<times> ObjectGraph" where
  "visitPrototype am e g v =
     (case visitObject am e g (protoOf e v) of
        (Inl err, g1) \<Rightarrow> (Some err, g1)
      | (Inr protoId, g1) \<Rightarrow> storeProto am g1 (uidOf e v) protoId)"

text \<open>
  \<^verbatim>\<open>visitProperty(o, propertyName, dataMap)\<close>: whatever the \<^verbatim>\<open>try\<close> block throws, the read
  of the property or \<^verbatim>\<open>visitObject\<close>, is recorded as the exception sentinel.
\<close>

definition visitProperty ::
  "assert_mode \<Rightarrow> env \<Rightarrow> ObjectGraph \<Rightarrow> jsval \<Rightarrow> string \<Rightarrow> error option \<times> ObjectGraph" where
  "visitProperty am e g v propertyName =
     (let name = rewriteName e propertyName
      in case readProperty e v propertyName of
           Throws \<Rightarrow> (None, writeData g (uidOf e v) name types_exception)
         | Value x \<Rightarrow>
             (case visitObject am e g x of
                (Inl err, g1) \<Rightarrow> (None, writeData g1 (uidOf e v) name types_exception)
              | (Inr i, g1) \<Rightarrow> (None, writeData g1 (uidOf e v) name i)))"

text \<open>
  \<^verbatim>\<open>visitPropertyDescriptors(o, metadataMap)\<close>: a missing descriptor is only warned about.
\<close>

definition visitPropertyDescriptors ::
  "env \<Rightarrow> ObjectGraph \<Rightarrow> jsval \<Rightarrow> error option \<times> ObjectGraph" where
  "visitPropertyDescriptors e g v =
     (None,
      fold (\<lambda>name g'.
              if isKeyBlacklisted g' name \<or> isPropertyBlacklisted e g' v name then g'
              else (case getOwnPropertyDescriptor e v name of
                      None \<Rightarrow> g'
                    | Some d \<Rightarrow>
                        writeMetadata g' (uidOf e v) name
                          (map (\<lambda>(part, truthy). (part, if truthy then 1 else 0)) d)))
           (getOwnPropertyNames e v) g)"

definition runTask :: "assert_mode \<Rightarrow> env \<Rightarrow> ObjectGraph \<Rightarrow> task \<Rightarrow> error option \<times> ObjectGraph" where
  "runTask am e g f =
     (case f of
        VisitPrototype v \<Rightarrow> visitPrototype am e g v
      | VisitPropertyDescriptors v \<Rightarrow> visitPropertyDescriptors e g v
      | VisitProperty v name \<Rightarrow> visitProperty am e g v name)"

section \<open>The task queue and capture\<close>

text \<open>
  The loop of \<^verbatim>\<open>flush\<close>:
  \<^verbatim>\<open>for ( var i = 0; i < this.maxDequeueSize && this.q.length > 0; i++ ) { var f = this.q.shift(); f(); }\<close>
  The first argument counts the iterations left.
\<close>

fun flush_loop :: "nat \<Rightarrow> assert_mode \<Rightarrow> env \<Rightarrow> ObjectGraph \<Rightarrow> error option \<times> ObjectGraph" where
  "flush_loop 0 am e g = (None, g)"
| "flush_loop (Suc n) am e g =
     (case queue (q g) of
        [] \<Rightarrow> (None, g)
      | f # fs \<Rightarrow>
          (case runTask am e (g\<lparr>q := (q g)\<lparr>queue := fs\<rparr>\<rparr>) f of
             (Some err, g1) \<Rightarrow> (Some err, g1)
           | (None, g1) \<Rightarrow> flush_loop n am e g1))"

text \<open>
  The world a capture runs in: the graph, the number of \<^verbatim>\<open>flush\<close> calls handed to
  \<^verbatim>\<open>window.setTimeout\<close> and not yet run, and the user callbacks called so far, in order.
  The host is a browser: \<^verbatim>\<open>window.setTimeout\<close> exists.
\<close>

record world =
  og :: ObjectGraph
  pendingFlushes :: nat
  calls :: "nat list"

text \<open>
  \<^verbatim>\<open>flush\<close> and \<^verbatim>\<open>capture\<close>, given the function \<open>run\<close> that calls a callback. \<open>run\<close>
  yields \<^term>\<open>None\<close> when it does not return.
\<close>

definition flush ::
  "(callback \<Rightarrow> world \<Rightarrow> (error option \<times> world) option) \<Rightarrow> assert_mode \<Rightarrow> env \<Rightarrow> world \<Rightarrow>
   (error option \<times> world) option" where
  "flush run am e w =
     (case run (onTick (q (og w))) w of
        None \<Rightarrow> None
      | Some (Some err, w1) \<Rightarrow> Some (Some err, w1)
      | Some (None, w1) \<Rightarrow>
          (case flush_loop (maxDequeueSize (q (og w1))) am e (og w1) of
             (Some err, g2) \<Rightarrow> Some (Some err, w1\<lparr>og := g2\<rparr>)
           | (None, g2) \<Rightarrow>
               (if queue (q g2) \<noteq> []
                then Some (None, w1\<lparr>og := g2, pendingFlushes := Suc (pendingFlushes w1)\<rparr>)
                else run (onDone (q g2)) (w1\<lparr>og := g2\<rparr>))))"

definition capture ::
  "(callback \<Rightarrow> world \<Rightarrow> (error option \<times> world) option) \<Rightarrow> assert_mode \<Rightarrow> env \<Rightarrow> world \<Rightarrow>
   jsval \<Rightarrow> string option \<Rightarrow> nat option \<Rightarrow> (error option \<times> world) option" where
  "capture run am e w v opts_key opts_onDone =
     (let g = og w; prevOnDone = onDone (q g)
      in if busy g
         then Some (None, w\<lparr>og := g\<lparr>q := (q g)\<lparr>onDone := Deferred prevOnDone v opts_key opts_onDone\<rparr>\<rparr>\<rparr>)
         else
           (let g1 = g\<lparr>busy := True,
                       timestamp := None,
                       key := (case opts_key of None \<Rightarrow> [] | Some k \<Rightarrow> k),
                       root := (if typeof v = ''object'' \<and> v \<noteq> JNull
                                then JNumber (uidOf e v) else v),
                       data := [], metadata := [], protos := [], functions' := [],
                       keysCache := [],
                       q := (q g)\<lparr>onDone := CaptureDone prevOnDone opts_onDone\<rparr>\<rparr>
            in if v \<in> set (blacklistedObjects g1) then flush run am e (w\<lparr>og := g1\<rparr>)
               else (case visitObject am e g1 v of
                       (Inl err, g2) \<Rightarrow> Some (Some err, w\<lparr>og := g2\<rparr>)
                     | (Inr i, g2) \<Rightarrow> flush run am e (w\<lparr>og := g2\<rparr>))))"

text \<open>
  Calling a callback. The closure of the normal path sets the timestamp, calls
  \<^verbatim>\<open>initLazyData\<close> (nothing to do in the model), \<^verbatim>\<open>prevOnDone\<close> and \<^verbatim>\<open>opts.onDone\<close>, and clears
  \<^verbatim>\<open>busy\<close>. The closure of the busy path calls \<^verbatim>\<open>prevOnDone\<close> and then \<^verbatim>\<open>capture\<close> again; that
  call is the only recursion that need not end, and it takes one unit of fuel.
\<close>

function run_callback ::
  "nat \<Rightarrow> assert_mode \<Rightarrow> env \<Rightarrow> callback \<Rightarrow> world \<Rightarrow> (error option \<times> world) option" where
  "run_callback n am e Noop w = Some (None, w)"
| "run_callback n am e (UserFn f) w = Some (None, w\<lparr>calls := calls w @ [f]\<rparr>)"
| "run_callback n am e (CaptureDone prevOnDone opts_onDone) w =
     (case run_callback n am e prevOnDone
             (w\<lparr>og := initLazyData ((og w)\<lparr>timestamp := Some (now e)\<rparr>)\<rparr>) of
        None \<Rightarrow> None
      | Some (Some err, w1) \<Rightarrow> Some (Some err, w1)
      | Some (None, w1) \<Rightarrow>
          (let w2 = (case opts_onDone of None \<Rightarrow> w1 | Some f \<Rightarrow> w1\<lparr>calls := calls w1 @ [f]\<rparr>)
           in Some (None, w2\<lparr>og := (og w2)\<lparr>busy := False\<rparr>\<rparr>)))"
| "run_callback 0 am e (Deferred prevOnDone v opts_key opts_onDone) w = None"
| "run_callback (Suc n) am e (Deferred prevOnDone v opts_key opts_onDone) w =
     (case run_callback (Suc n) am e prevOnDone w of
        None \<Rightarrow> None
      | Some (Some err, w1) \<Rightarrow> Some (Some err, w1)
      | Some (None, w1) \<Rightarrow>
          capture (\<lambda>cb w'. run_callback n am e cb w') am e w1 v opts_key opts_onDone)"
  by pat_completeness auto
termination
  by (relation "inv_image (less_than <*lex*> less_than) (\<lambda>(n, am, e, cb, w). (n, size cb))") auto

text \<open>
  The host later runs a \<^verbatim>\<open>flush\<close> that was handed to \<^verbatim>\<open>window.setTimeout\<close>.
\<close>

definition timer_fires ::
  "nat \<Rightarrow> assert_mode \<Rightarrow> env \<Rightarrow> world \<Rightarrow> (error option \<times> world) option" where
  "timer_fires n am e w =
     (if pendingFlushes w = 0 then Some (None, w)
      else flush (run_callback n am e) am e (w\<lparr>pendingFlushes := pendingFlushes w - 1\<rparr>))"


section \<open>Predicates and examples used in the statements\<close>



text \<open>
  An inspected heap. The root (reference 0, identity 9) has the properties \<^verbatim>\<open>a\<close> (object
  10), \<^verbatim>\<open>n\<close> (a number) and \<^verbatim>\<open>self\<close> (the root itself) and the tagging field; object 10
  has \<^verbatim>\<open>b\<close> (function 11); object 12 is the delegation parent of 9 and 10 and has \<^verbatim>\<open>x\<close>
  (function 11). Reference 99 is the graph object itself.
\<close>

definition plain_property :: "jsval \<Rightarrow> property" where
  "plain_property v =
     \<lparr>slot = Value v,
      descriptor = Some [(''value'', True), (''writable'', True), (''enumerable'', True),
                         (''configurable'', True)]\<rparr>"

definition example_heap :: "ref \<Rightarrow> jsobject" where
  "example_heap r =
     (if r = 0 then \<lparr>UID = 9, proto = JObject 3,
                      ownProperties = [(''a'', plain_property (JObject 1)),
                                       (''n'', plain_property (JNumber 5)),
                                       (''self'', plain_property (JObject 0)),
                                       (''$UID__'', plain_property (JNumber 9))]\<rparr>
      else if r = 1 then \<lparr>UID = 10, proto = JObject 3,
                           ownProperties = [(''b'', plain_property (JFunction 2))]\<rparr>
      else if r = 2 then \<lparr>UID = 11, proto = JNull, ownProperties = []\<rparr>
      else if r = 3 then \<lparr>UID = 12, proto = JNull,
                           ownProperties = [(''x'', plain_property (JFunction 2))]\<rparr>
      else \<lparr>UID = 100 + r, proto = JNull, ownProperties = []\<rparr>)"

definition example_env :: env where
  "example_env = \<lparr>heap = example_heap, rewriteName = (\<lambda>name. name), now = 42\<rparr>"

text \<open>A fresh graph, made with \<^verbatim>\<open>new ObjectGraph({maxDequeueSize: 20})\<close>, and its world.\<close>

definition example_world :: world where
  "example_world =
     \<lparr>og = (newObjectGraph ''NodeJS/v6.0.0'' [] (JObject 99))
              \<lparr>q := newTaskQueue\<lparr>maxDequeueSize := 20\<rparr>\<rparr>,
      pendingFlushes = 0, calls = []\<rparr>"

text \<open>
  The graph that capturing the root of the example heap leaves (lemma
  \<open>example_graph_captured\<close>).
\<close>

definition example_graph :: ObjectGraph where
  "example_graph =
     \<lparr>q = \<lparr>queue = [], maxDequeueSize = 20, onTick = Noop, onDone = CaptureDone Noop None\<rparr>,
      busy = False, blacklistedObjects = [JObject 99],
      blacklistedKeys = default_blacklistedKeys, keysCache = [], userAgent = ''NodeJS/v6.0.0'',
      timestamp = Some 42, key = [], root = JNumber 9,
      data = [(9, [(''a'', 10), (''n'', 3), (''self'', 9)]), (12, [(''x'', 11)]),
              (10, [(''b'', 11)]), (11, [])],
      metadata =
        [(9, [(''a'', [(''value'', 1), (''writable'', 1), (''enumerable'', 1), (''configurable'', 1)]),
              (''n'', [(''value'', 1), (''writable'', 1), (''enumerable'', 1), (''configurable'', 1)]),
              (''self'', [(''value'', 1), (''writable'', 1), (''enumerable'', 1), (''configurable'', 1)])]),
         (12, [(''x'', [(''value'', 1), (''writable'', 1), (''enumerable'', 1), (''configurable'', 1)])]),
         (10, [(''b'', [(''value'', 1), (''writable'', 1), (''enumerable'', 1), (''configurable'', 1)])]),
         (11, [])],
      protos = [(9, 12), (12, 6), (10, 12), (11, 6)], functions' = [11],
      lazyData = Some ([(9, [(''a'', 10), (''n'', 3), (''self'', 9)]), (12, [(''x'', 11)]),
                        (10, [(''b'', 11)]), (11, [])],
                       [(9, 12), (12, 6), (10, 12), (11, 6)])\<rparr>"

text \<open>
  The indices are current when \<^verbatim>\<open>initLazyData\<close> has run on the \<^verbatim>\<open>data\<close> and \<^verbatim>\<open>protos\<close> the
  graph has now: after a capture has completed, after \<^verbatim>\<open>fromJSON\<close> and after a removal.
\<close>

definition lazy_ok :: "ObjectGraph \<Rightarrow> bool" where
  "lazy_ok g = (lazyData g = Some (data g, protos g))"

text \<open>
  For the proofs: \<^verbatim>\<open>getKeys_\<close> without the reads that can throw, on the indices of the
  graph's own \<^verbatim>\<open>data\<close> and \<^verbatim>\<open>protos\<close>. Lemma \<open>getKeys'_bound\<close> shows that \<open>getKeys'\<close>
  computes this function on the objects that \<^verbatim>\<open>initLazyData\<close> bound.
\<close>

fun pure_ids ::
  "(nat \<Rightarrow> nat set \<Rightarrow> (string list \<times> nat set) option) \<Rightarrow> string \<Rightarrow> nat list \<Rightarrow>
   string list \<times> nat set \<Rightarrow> (string list \<times> nat set) option" where
  "pure_ids rec k [] acc = Some acc"
| "pure_ids rec k (invId # ids) (allKeys, seen) =
     (if invId \<in> seen then pure_ids rec k ids (allKeys, seen)
      else (case rec invId seen of
              None \<Rightarrow> None
            | Some (prefixes, seen') \<Rightarrow>
                pure_ids rec k ids
                  (allKeys @ map (\<lambda>prefix. prefix @ ''.'' @ k) prefixes, seen')))"

fun pure_keys ::
  "ObjectGraph \<Rightarrow> (nat \<Rightarrow> nat set \<Rightarrow> (string list \<times> nat set) option) \<Rightarrow>
   (string \<times> nat list) list \<Rightarrow> string list \<times> nat set \<Rightarrow> (string list \<times> nat set) option" where
  "pure_keys g rec [] acc = Some acc"
| "pure_keys g rec ((k, ids) # keys) acc =
     (if isKeyBlacklisted g k then pure_keys g rec keys acc
      else (case pure_ids rec k ids acc of
              None \<Rightarrow> None
            | Some acc' \<Rightarrow> pure_keys g rec keys acc'))"

primrec pure_getKeys' ::
  "nat \<Rightarrow> ObjectGraph \<Rightarrow> nat \<Rightarrow> nat set \<Rightarrow> (string list \<times> nat set) option" where
  "pure_getKeys' 0 g i seen = None"
| "pure_getKeys' (Suc fuel) g i seen =
     (let seen1 = insert i seen
      in if root g = JNumber i then Some ([key g], seen1)
         else (case remap_data (data g) i of
                 None \<Rightarrow> Some ([], seen1)
               | Some m \<Rightarrow>
                   (case pure_keys g (pure_getKeys' fuel g) (sort_key fst m) ([], seen1) of
                      None \<Rightarrow> None
                    | Some (allKeys, seen2) \<Rightarrow>
                        (case remap_protos (protos g) i of
                           None \<Rightarrow> Some (allKeys, seen2)
                         | Some ips \<Rightarrow>
                             pure_ids (pure_getKeys' fuel g) ''__proto__'' ips (allKeys, seen2)))))"

definition pure_fuel :: "ObjectGraph \<Rightarrow> nat" where
  "pure_fuel g = Suc (length (data g) + length (protos g))"


text \<open>The identities \<^verbatim>\<open>getKeys_\<close> can recurse into: the keys of \<^verbatim>\<open>data\<close> and of \<^verbatim>\<open>protos\<close>.\<close>

definition universe :: "ObjectGraph \<Rightarrow> nat set" where
  "universe g = fst ` set (data g) \<union> fst ` set (protos g)"


text \<open>
  The state of \<^verbatim>\<open>keysCache\<close> in a graph that was captured and then only queried: every
  cached entry is what \<^verbatim>\<open>getKeys\<close> computes now. (\<^verbatim>\<open>removeIds\<close> and \<^verbatim>\<open>removePrimitives\<close> do
  not reset the cache.)
\<close>

definition cache_ok :: "sort_fn \<Rightarrow> ObjectGraph \<Rightarrow> bool" where
  "cache_ok srt g =
     (\<forall>i keys. map_of (keysCache g) i = Some keys \<longrightarrow>
        (\<exists>allKeys seen. getKeys' (getKeys_fuel g) g i {} = Some (Inr (allKeys, seen)) \<and>
                        keys = srt getKeys_compare allKeys))"



text \<open>
  A host \<^verbatim>\<open>sort\<close> for the examples: insertion sort as V8 ran it on short arrays, moving
  an element left past every \<open>y\<close> with \<open>cmp y x > 0\<close>.
\<close>

definition insert_from_right :: "(string \<Rightarrow> string \<Rightarrow> int) \<Rightarrow> string \<Rightarrow> string list \<Rightarrow> string list" where
  "insert_from_right cmp x ys =
     rev (dropWhile (\<lambda>y. cmp y x > 0) (rev ys)) @ [x] @ rev (takeWhile (\<lambda>y. cmp y x > 0) (rev ys))"

definition insertion_sort :: sort_fn where
  "insertion_sort cmp xs = foldl (\<lambda>acc x. insert_from_right cmp x acc) [] xs"

text \<open>
  Path soundness. \<open>renders g segs\<close> is the key \<^verbatim>\<open>getKeys_\<close> builds for the segments
  \<open>segs\<close>: the root's key, then \<^verbatim>\<open>'.' + segment\<close> for each. \<open>reaches g segs i\<close>: walking the
  segments from the root with \<^verbatim>\<open>lookup_\<close> ends at \<open>i\<close>, and no segment holds a dot.
\<close>

definition renders :: "ObjectGraph \<Rightarrow> string list \<Rightarrow> string" where
  "renders g segs = key g @ concat (map (\<lambda>s. ''.'' @ s) segs)"

definition reaches :: "ObjectGraph \<Rightarrow> string list \<Rightarrow> nat \<Rightarrow> bool" where
  "reaches g segs i =
     (\<exists>r. root g = JNumber r \<and> lookup_loop g segs r = Some (Inr (Some i))
          \<and> (\<forall>s \<in> set segs. CHR ''.'' \<notin> set s) \<and> (segs = [] \<longrightarrow> i = r))"

definition sound :: "ObjectGraph \<Rightarrow> nat \<Rightarrow> string list \<Rightarrow> bool" where
  "sound g i ps = (\<forall>p \<in> set ps. \<exists>segs. p = renders g segs \<and> reaches g segs i)"

text \<open>
  What the soundness of paths needs of a graph: the keys of \<^verbatim>\<open>data\<close> and \<^verbatim>\<open>protos\<close> are
  identities (not sentinels, not 0), no stored property name holds the separator
  \<^verbatim>\<open>'.'\<close>, and \<^verbatim>\<open>__proto__\<close> is a blacklisted key (as it is by default).
\<close>

definition graph_ok :: "ObjectGraph \<Rightarrow> bool" where
  "graph_ok g =
     ((\<forall>a \<in> fst ` set (data g). identity a) \<and> (\<forall>a \<in> fst ` set (protos g). identity a)
      \<and> (\<forall>(a, dataMap) \<in> set (data g). \<forall>(name, c) \<in> set dataMap. CHR ''.'' \<notin> set name)
      \<and> ''__proto__'' \<in> set (blacklistedKeys g))"

text \<open>
  The example graph as a capture with the key \<^verbatim>\<open>window\<close> of a root that refers to itself
  under that name would leave it (as \<^verbatim>\<open>window.window\<close> does in a browser).
\<close>


definition window_graph :: ObjectGraph where
  "window_graph =
     example_graph\<lparr>key := ''window'',
                   data := [(9, [(''a'', 10), (''n'', 3), (''self'', 9), (''window'', 9)]),
                            (12, [(''x'', 11)]), (10, [(''b'', 11)]), (11, [])],
                   lazyData := Some ([(9, [(''a'', 10), (''n'', 3), (''self'', 9), (''window'', 9)]),
                                      (12, [(''x'', 11)]), (10, [(''b'', 11)]), (11, [])],
                                     [(9, 12), (12, 6), (10, 12), (11, 6)])\<rparr>"

text \<open>
  A graph as a capture with the key \<^verbatim>\<open>window\<close> leaves it when the root has a property named
  \<^verbatim>\<open>a.b\<close>.
\<close>

definition dotted_graph :: ObjectGraph where
  "dotted_graph =
     example_graph\<lparr>key := ''window'',
                   data := [(9, [(''window'', 9), (''a.b'', 10)]), (10, [])],
                   metadata := [(9, []), (10, [])],
                   protos := [(9, 6), (10, 6)], functions' := [],
                   lazyData := Some ([(9, [(''window'', 9), (''a.b'', 10)]), (10, [])],
                                     [(9, 6), (10, 6)])\<rparr>"

text \<open>The example graph after \<^verbatim>\<open>getKeys(11)\<close>, which left its result in the cache.\<close>

definition queried_graph :: ObjectGraph where
  "queried_graph = example_graph\<lparr>keysCache := [(11, [''.a.b''])]\<rparr>"

text \<open>
  A callback that holds no deferred capture: the default no-op, a user's callback, or the
  closure \<^verbatim>\<open>capture\<close> installs on its normal path around such a callback. \<open>callback_calls\<close>
  lists the user callbacks it calls, \<open>callback_graph\<close> is what it does to the graph.
\<close>

fun plain :: "callback \<Rightarrow> bool" where
  "plain Noop = True"
| "plain (UserFn f) = True"
| "plain (CaptureDone prevOnDone opts_onDone) = plain prevOnDone"
| "plain (Deferred prevOnDone v opts_key opts_onDone) = False"

fun callback_calls :: "callback \<Rightarrow> nat list" where
  "callback_calls Noop = []"
| "callback_calls (UserFn f) = [f]"
| "callback_calls (CaptureDone prevOnDone opts_onDone) =
     callback_calls prevOnDone @ (case opts_onDone of None \<Rightarrow> [] | Some f \<Rightarrow> [f])"
| "callback_calls (Deferred prevOnDone v opts_key opts_onDone) = []"

fun callback_graph :: "env \<Rightarrow> callback \<Rightarrow> ObjectGraph \<Rightarrow> ObjectGraph" where
  "callback_graph e Noop g = g"
| "callback_graph e (UserFn f) g = g"
| "callback_graph e (CaptureDone prevOnDone opts_onDone) g =
     (callback_graph e prevOnDone (initLazyData (g\<lparr>timestamp := Some (now e)\<rparr>)))\<lparr>busy := False\<rparr>"
| "callback_graph e (Deferred prevOnDone v opts_key opts_onDone) g = g"

text \<open>
  A graph with a capture in flight: the capture of the example heap with the default batch
  size 10, which leaves three tasks for a later \<^verbatim>\<open>flush\<close>.
\<close>

definition busy_world :: world where
  "busy_world =
     (case capture (run_callback 0 AssertThrows example_env) AssertThrows example_env
             (example_world\<lparr>og := (og example_world)\<lparr>q := newTaskQueue\<rparr>\<rparr>) (JObject 0) None None of
        Some (x, w) \<Rightarrow> w
      | None \<Rightarrow> example_world)"

text \<open>
  The fields the graph builder never writes: it changes \<^verbatim>\<open>data\<close>, \<^verbatim>\<open>metadata\<close>, \<^verbatim>\<open>protos\<close>,
  \<^verbatim>\<open>functions\<close> and the task list, and keeps the rest.
\<close>


definition kept :: "ObjectGraph \<Rightarrow> ObjectGraph \<Rightarrow> bool" where
  "kept g' g =
     (busy g' = busy g \<and> blacklistedObjects g' = blacklistedObjects g
      \<and> blacklistedKeys g' = blacklistedKeys g \<and> keysCache g' = keysCache g
      \<and> userAgent g' = userAgent g \<and> timestamp g' = timestamp g \<and> key g' = key g
      \<and> root g' = root g \<and> maxDequeueSize (q g') = maxDequeueSize (q g)
      \<and> onTick (q g') = onTick (q g) \<and> onDone (q g') = onDone (q g))"

section \<open>Properties of forward lookup\<close>

lemma initLazyData_fields [simp]:
  "data (initLazyData g) = data g" "protos (initLazyData g) = protos g"
  "metadata (initLazyData g) = metadata g" "functions' (initLazyData g) = functions' g"
  "root (initLazyData g) = root g" "key (initLazyData g) = key g"
  "keysCache (initLazyData g) = keysCache g" "q (initLazyData g) = q g"
  "busy (initLazyData g) = busy g" "timestamp (initLazyData g) = timestamp g"
  "userAgent (initLazyData g) = userAgent g"
  "blacklistedObjects (initLazyData g) = blacklistedObjects g"
  "blacklistedKeys (initLazyData g) = blacklistedKeys g"
  "lazyData (initLazyData g) = Some (data g, protos g)"
  by (simp_all add: initLazyData_def)

lemma entry_initLazyData [simp]: "entry (initLazyData g) i k = entry g i k"
  by (simp add: entry_def)

lemma example_graph_captured:
  "capture (run_callback 0 AssertThrows example_env) AssertThrows example_env example_world
     (JObject 0) None None
   = Some (None, \<lparr>og = example_graph, pendingFlushes = 0, calls = []\<rparr>)"
  by code_simp

lemma identity_not_isType: "identity i \<Longrightarrow> \<not> isType i"
  by (simp add: identity_def isType_def)

lemma identity_nonzero: "identity i \<Longrightarrow> i \<noteq> 0"
  by (auto simp: identity_def)

lemma lookup_loop_append:
  "lookup_loop g (xs @ ys) i =
     (case lookup_loop g xs i of
        Some (Inr (Some j)) \<Rightarrow> lookup_loop g ys j
      | r \<Rightarrow> r)"
  by (induction xs arbitrary: i) (auto simp: Let_def split: option.splits sum.splits)

lemma lookup_walk_undefined:
  "\<not> isType i \<Longrightarrow> map_of (data g) i = None \<Longrightarrow> lookup_walk g name i = Some (Inl TypeError)"
  by (subst lookup_walk.simps) simp


lemma lookup_walk_found:
  "\<not> isType i \<Longrightarrow> map_of (data g) i = Some dataMap \<Longrightarrow> map_of dataMap name = Some v \<Longrightarrow>
   v \<noteq> 0 \<Longrightarrow> lookup_walk g name i = Some (Inr (Some v))"
  by (subst lookup_walk.simps) simp



text \<open>
  C10. \<^verbatim>\<open>lookup_\<close> is not total: when the walk along a path has reached an identity \<open>i\<close>
  that is neither a type sentinel nor a key of \<^verbatim>\<open>data\<close>, and the next segment is an ordinary
  one (not \<^verbatim>\<open>__proto__\<close>), the read \<^verbatim>\<open>this.data[id][name]\<close> throws a TypeError; the null
  no-match result is not returned. \<open>pre\<close> is the part of the path already walked
  (empty when \<open>i\<close> is the start itself).
\<close>

theorem lookup_throws_on_unstored_identity:
  assumes "name \<noteq> ''__proto__''" and "\<not> isType i" and "map_of (data g) i = None"
    and "lookup_loop g pre start = Some (Inr (Some i))"
  shows "lookup' g (pre @ name # rest) start = Some (Inl TypeError)"
  using assms by (simp add: lookup'_def lookup_loop_append lookup_walk_undefined)

text \<open>
  The example graph after \<^verbatim>\<open>removeIds([10])\<close>: the root still refers to 10 under \<^verbatim>\<open>a\<close>, and
  \<^verbatim>\<open>lookup('a.b')\<close> throws.
\<close>

theorem lookup_throws_on_unstored_identity_witness:
  "''b'' \<noteq> ''__proto__'' \<and> \<not> isType 10 \<and> map_of (data (removeIds example_graph [10])) 10 = None
   \<and> lookup_loop (removeIds example_graph [10]) [''a''] 9 = Some (Inr (Some 10))
   \<and> lookup' (removeIds example_graph [10]) ([''a''] @ ''b'' # []) 9 = Some (Inl TypeError)
   \<and> lookup (removeIds example_graph [10]) ''a.b'' None = Some (Inl TypeError)"
proof -
  have h1: "''b'' \<noteq> ''__proto__''" by simp
  have h2: "\<not> isType 10" by code_simp
  have h3: "map_of (data (removeIds example_graph [10])) 10 = None" by code_simp
  have h4: "lookup_loop (removeIds example_graph [10]) [''a''] 9 = Some (Inr (Some 10))"
    by code_simp
  have h5: "lookup (removeIds example_graph [10]) ''a.b'' None = Some (Inl TypeError)"
    by code_simp
  from lookup_throws_on_unstored_identity [OF h1 h2 h3 h4, of "[]"] h1 h2 h3 h4 h5
  show ?thesis by blast
qed




section \<open>Properties of removal\<close>


lemma entry_after_delete:
  assumes "map_of (data g) i = Some dataMap"
  shows "entry (g\<lparr>data := AList.update i (AList.delete k dataMap) (data g)\<rparr>) i' k' =
           (if i' = i \<and> k' = k then None else entry g i' k')"
  using assms by (simp add: entry_def update_conv' delete_conv')

lemma removePrimitives_ok_iff:
  "(case map_of (data g) i of None \<Rightarrow> False | Some dataMap \<Rightarrow> isType_opt (map_of dataMap k))
     = isType_opt (entry g i k)"
  by (simp add: entry_def isType_opt_def split: option.splits)

lemma removePrimitives_throws:
  "\<not> isType_opt (entry g i k) \<Longrightarrow>
   removePrimitives AssertThrows g ((i, k) # ps) =
     (Some (AssertionError (removePrimitives_message i k)), g)"
  by (simp add: removePrimitives_ok_iff)

lemma removePrimitives_deletes:
  "map_of (data g) i = Some m \<Longrightarrow> isType_opt (entry g i k) \<Longrightarrow>
   removePrimitives am g ((i, k) # ps) =
     removePrimitives am (g\<lparr>data := AList.update i (AList.delete k m) (data g)\<rparr>) ps"
  by (simp add: entry_def)

lemma removePrimitives_refuses:
  "(i, k) \<in> set idKeyPairs \<Longrightarrow> \<not> isType_opt (entry g i k) \<Longrightarrow>
     (\<exists>msg. fst (removePrimitives AssertThrows g idKeyPairs) = Some (AssertionError msg))
     \<and> entry (snd (removePrimitives AssertThrows g idKeyPairs)) i k = entry g i k"
proof (induction idKeyPairs arbitrary: g)
  case Nil
  then show ?case by simp
next
  case (Cons p ps)
  obtain i' k' where p: "p = (i', k')" by (cases p)
  show ?case
  proof (cases "isType_opt (entry g i' k')")
    case False
    have "removePrimitives AssertThrows g (p # ps) =
            (Some (AssertionError (removePrimitives_message i' k')), g)"
      unfolding p by (rule removePrimitives_throws [OF False])
    then show ?thesis by simp
  next
    case True
    then obtain m where m: "map_of (data g) i' = Some m"
      by (auto simp: entry_def isType_opt_def split: option.splits)
    from True Cons.prems have ne: "\<not> (i = i' \<and> k = k')" by auto
    with Cons.prems p have mem: "(i, k) \<in> set ps" by auto
    let ?g1 = "g\<lparr>data := AList.update i' (AList.delete k' m) (data g)\<rparr>"
    have same: "entry ?g1 i k = entry g i k"
      using ne by (auto simp: entry_after_delete [OF m])
    with Cons.prems have "\<not> isType_opt (entry ?g1 i k)" by simp
    moreover have "removePrimitives AssertThrows g (p # ps) = removePrimitives AssertThrows ?g1 ps"
      unfolding p by (rule removePrimitives_deletes [OF m True])
    ultimately show ?thesis
      using Cons.IH [OF mem, of ?g1] same by simp
  qed
qed

lemma removePrimitives_deletes_only_primitives:
  "entry (snd (removePrimitives AssertThrows g idKeyPairs)) i k \<noteq> entry g i k \<Longrightarrow>
     isType_opt (entry g i k) \<and> (i, k) \<in> set idKeyPairs
     \<and> entry (snd (removePrimitives AssertThrows g idKeyPairs)) i k = None"
proof (induction idKeyPairs arbitrary: g)
  case Nil
  then show ?case by simp
next
  case (Cons p ps)
  obtain i' k' where p: "p = (i', k')" by (cases p)
  show ?case
  proof (cases "isType_opt (entry g i' k')")
    case False
    have "removePrimitives AssertThrows g (p # ps) =
            (Some (AssertionError (removePrimitives_message i' k')), g)"
      unfolding p by (rule removePrimitives_throws [OF False])
    with Cons.prems show ?thesis by simp
  next
    case True
    then obtain m where m: "map_of (data g) i' = Some m"
      by (auto simp: entry_def isType_opt_def split: option.splits)
    let ?g1 = "g\<lparr>data := AList.update i' (AList.delete k' m) (data g)\<rparr>"
    have res: "removePrimitives AssertThrows g (p # ps) = removePrimitives AssertThrows ?g1 ps"
      unfolding p by (rule removePrimitives_deletes [OF m True])
    show ?thesis
    proof (cases "entry (snd (removePrimitives AssertThrows ?g1 ps)) i k = entry ?g1 i k")
      case same: True
      with Cons.prems res have "entry ?g1 i k \<noteq> entry g i k" by simp
      then have "i = i' \<and> k = k'" and "entry ?g1 i k = None"
        by (auto simp: entry_after_delete [OF m] split: if_splits)
      with True same res p show ?thesis by simp
    next
      case False
      from Cons.IH [OF False] have ih: "isType_opt (entry ?g1 i k)" "(i, k) \<in> set ps"
        "entry (snd (removePrimitives AssertThrows ?g1 ps)) i k = None" by simp_all
      from ih(1) have "entry ?g1 i k = entry g i k"
        by (auto simp: entry_after_delete [OF m] isType_opt_def split: if_splits)
      with ih res show ?thesis by simp
    qed
  qed
qed

text \<open>
  Where \<^verbatim>\<open>console.assert\<close> throws (Node.js before version 10), the assertion guards the
  deletion: for every pair \<open>(i, k)\<close> whose entry \<^verbatim>\<open>data[i][k]\<close> is not a type sentinel the
  call fails with an assertion error and leaves that entry as it was; and whatever entry
  the call changed was a type sentinel, named by one of the pairs, and is now deleted.
\<close>

lemma removePrimitives_on_throwing_host:
  "((i, k) \<in> set idKeyPairs \<and> \<not> isType_opt (entry g i k) \<longrightarrow>
      (\<exists>msg. fst (removePrimitives AssertThrows g idKeyPairs) = Some (AssertionError msg))
      \<and> entry (snd (removePrimitives AssertThrows g idKeyPairs)) i k = entry g i k)
   \<and> (entry (snd (removePrimitives AssertThrows g idKeyPairs)) i k \<noteq> entry g i k \<longrightarrow>
      isType_opt (entry g i k) \<and> (i, k) \<in> set idKeyPairs
      \<and> entry (snd (removePrimitives AssertThrows g idKeyPairs)) i k = None)"
  using removePrimitives_refuses [of i k idKeyPairs g]
    removePrimitives_deletes_only_primitives [of g idKeyPairs i k]
  by blast

text \<open>
  In the example graph \<^verbatim>\<open>data[9]['n']\<close> is the number sentinel and \<^verbatim>\<open>data[9]['a']\<close> is the
  object 10.
\<close>

lemma removePrimitives_on_throwing_host_example:
  "(9::nat, ''a'') \<in> set [(9, ''n''), (9, ''a'')] \<and> \<not> isType_opt (entry example_graph 9 ''a'')
   \<and> fst (removePrimitives AssertThrows example_graph [(9, ''n''), (9, ''a'')])
       = Some (AssertionError ''Attempt to remove non-primitive, 9 . a, with removePrimitives()'')
   \<and> entry (snd (removePrimitives AssertThrows example_graph [(9, ''n''), (9, ''a'')])) 9 ''a'' = Some 10
   \<and> entry (snd (removePrimitives AssertThrows example_graph [(9, ''n''), (9, ''a'')])) 9 ''n''
       \<noteq> entry example_graph 9 ''n''
   \<and> isType_opt (entry example_graph 9 ''n'')
   \<and> entry (snd (removePrimitives AssertThrows example_graph [(9, ''n''), (9, ''a'')])) 9 ''n'' = None"
proof -
  have h1: "(9, ''a'') \<in> set [(9::nat, ''n''), (9, ''a'')]" by simp
  have h2: "\<not> isType_opt (entry example_graph 9 ''a'')" by code_simp
  have h3: "fst (removePrimitives AssertThrows example_graph [(9, ''n''), (9, ''a'')])
       = Some (AssertionError ''Attempt to remove non-primitive, 9 . a, with removePrimitives()'')"
    by code_simp
  have h4: "entry example_graph 9 ''a'' = Some 10" by code_simp
  have h5: "entry (snd (removePrimitives AssertThrows example_graph [(9, ''n''), (9, ''a'')])) 9 ''n''
       \<noteq> entry example_graph 9 ''n''" by code_simp
  note a = removePrimitives_on_throwing_host [of 9 "''a''" "[(9, ''n''), (9, ''a'')]" example_graph]
  note b = removePrimitives_on_throwing_host [of 9 "''n''" "[(9, ''n''), (9, ''a'')]" example_graph]
  from a h1 h2 h4 have c1: "entry (snd (removePrimitives AssertThrows example_graph [(9, ''n''), (9, ''a'')])) 9 ''a'' = Some 10"
    by simp
  from b h5 have c2: "isType_opt (entry example_graph 9 ''n'')"
    and c3: "entry (snd (removePrimitives AssertThrows example_graph [(9, ''n''), (9, ''a'')])) 9 ''n'' = None"
    by blast+
  from h1 h2 h3 c1 h5 c2 c3 show ?thesis by blast
qed

text \<open>
  C2. \<^verbatim>\<open>removePrimitives\<close> is claimed to fail on a pair whose entry is not a type sentinel
  and not to delete that entry. The code states the precondition with \<^verbatim>\<open>console.assert\<close>
  and then runs \<^verbatim>\<open>delete this.data[id][key]\<close> whatever the assertion found. Where
  \<^verbatim>\<open>console.assert\<close> only logs (browsers, Node.js from version 10 on) the call on the pair
  \<^verbatim>\<open>(9, 'a')\<close> of the example graph, whose entry is the object identity 10, does not fail
  and deletes the reference.
\<close>

theorem removePrimitives_deletes_object_reference:
  "entry example_graph 9 ''a'' = Some 10 \<and> \<not> isType 10
   \<and> fst (removePrimitives AssertLogs example_graph [(9, ''a'')]) = None
   \<and> entry (snd (removePrimitives AssertLogs example_graph [(9, ''a'')])) 9 ''a'' = None"
  by code_simp

section \<open>Properties of the identity list\<close>

text \<open>
  C3. \<^verbatim>\<open>getAllIds()\<close> is claimed to list the identities in ascending numeric order, 2
  before 10. \<^verbatim>\<open>ids.sort()\<close> compares the decimal strings: in the example graph, whose
  identities are 9, 10, 11 and 12, the identity 9 comes last.
\<close>

theorem getAllIds_sorts_as_strings:
  "getAllIds example_graph = [10, 11, 12, 9]"
  by code_simp

section \<open>Properties of reverse lookup\<close>


lemma set_ownIds [simp]: "set (ownIds obj) = fst ` set obj"
  by (simp add: ownIds_def)

lemma clearjunk_mem: "(b, c) \<in> set (AList.clearjunk m) \<longleftrightarrow> map_of m b = Some c"
proof -
  have "(b, c) \<in> set (AList.clearjunk m) \<longleftrightarrow> map_of (AList.clearjunk m) b = Some c"
    by (simp add: distinct_clearjunk)
  then show ?thesis by (simp add: map_of_clearjunk)
qed

lemma dataEntries_mem: "(a, b, c) \<in> set (dataEntries (data g)) \<longleftrightarrow> entry g a b = Some c"
proof
  assume "(a, b, c) \<in> set (dataEntries (data g))"
  then obtain a' where "a' \<in> fst ` set (data g)"
    and in_a: "(a, b, c) \<in> set (case map_of (data g) a' of None \<Rightarrow> []
                 | Some dataMap \<Rightarrow> map (\<lambda>(b, c). (a', b, c)) (AList.clearjunk dataMap))"
    by (auto simp: dataEntries_def)
  then obtain m where m: "map_of (data g) a' = Some m"
    by (cases "map_of (data g) a'") auto
  with in_a have "a = a'" and "(b, c) \<in> set (AList.clearjunk m)"
    by auto
  with m show "entry g a b = Some c"
    by (simp add: entry_def clearjunk_mem)
next
  assume "entry g a b = Some c"
  then obtain m where m: "map_of (data g) a = Some m" and bc: "map_of m b = Some c"
    by (auto simp: entry_def split: option.splits)
  from m have "a \<in> fst ` set (data g)"
    by (metis map_of_SomeD fst_conv image_eqI)
  moreover from m bc have "(a, b, c) \<in> set (case map_of (data g) a of None \<Rightarrow> []
                 | Some dataMap \<Rightarrow> map (\<lambda>(b, c). (a, b, c)) (AList.clearjunk dataMap))"
    by (simp add: clearjunk_mem image_iff)
  ultimately show "(a, b, c) \<in> set (dataEntries (data g))"
    unfolding dataEntries_def by (simp only: set_concat set_map set_ownIds) blast
qed

lemma invData_mem:
  assumes "remap_data (data g) c = Some m" and "(k, ids) \<in> set m" and "a \<in> set ids"
  shows "entry g a k = Some c"
  using assms
  by (auto simp: remap_data_def Let_def dataEntries_mem split: if_splits)

lemma invProtos_mem:
  assumes "remap_protos (protos g) p = Some ids" and "a \<in> set ids"
  shows "map_of (protos g) a = Some p"
  using assms by (auto simp: remap_protos_def Let_def split: if_splits)


lemma protos_stored: "map_of (protos g) a = Some p \<Longrightarrow> a \<in> fst ` set (protos g)"
  by (auto dest!: map_of_SomeD intro: rev_image_eqI)

lemma finite_universe [simp]: "finite (universe g)"
  by (simp add: universe_def)






lemma mset_insert_from_right: "mset (insert_from_right cmp x ys) = add_mset x (mset ys)"
proof -
  have "mset (rev (dropWhile (\<lambda>y. cmp y x > 0) (rev ys))) + mset (rev (takeWhile (\<lambda>y. cmp y x > 0) (rev ys)))
      = mset (takeWhile (\<lambda>y. cmp y x > 0) (rev ys) @ dropWhile (\<lambda>y. cmp y x > 0) (rev ys))"
    by (simp only: mset_append mset_rev add.commute)
  also have "\<dots> = mset ys" by (simp only: takeWhile_dropWhile_id mset_rev)
  finally show ?thesis by (simp add: insert_from_right_def)
qed

lemma mset_foldl_insert: "mset (foldl (\<lambda>acc x. insert_from_right cmp x acc) acc xs) = mset acc + mset xs"
  by (induction xs arbitrary: acc) (simp_all add: mset_insert_from_right)

lemma host_sort_insertion_sort: "host_sort insertion_sort"
  by (simp add: host_sort_def insertion_sort_def mset_foldl_insert)

lemma host_sort_short: "host_sort srt \<Longrightarrow> length xs \<le> 1 \<Longrightarrow> srt cmp xs = xs"
proof -
  assume h: "host_sort srt" and l: "length xs \<le> 1"
  then have m: "mset (srt cmp xs) = mset xs" by (simp add: host_sort_def)
  show ?thesis
  proof (cases xs)
    case Nil
    with m show ?thesis by simp
  next
    case (Cons x ys)
    with l have "xs = [x]" by simp
    with m show ?thesis by (simp add: mset_single_iff_right)
  qed
qed

lemma host_sort_set: "host_sort srt \<Longrightarrow> set (srt cmp xs) = set xs"
  by (metis host_sort_def mset_eq_setD)





text \<open>
  \<open>getKeys'\<close> computes \<open>pure_getKeys'\<close> on the objects that \<^verbatim>\<open>initLazyData\<close> bound, and throws
  at every identity but the root while nothing is bound.
\<close>

lemma getKeys_ids_pure:
  "getKeys_ids (\<lambda>j S. map_option Inr (recP j S)) k ids acc
     = map_option Inr (pure_ids recP k ids acc)"
proof (induction ids arbitrary: acc)
  case Nil
  show ?case by simp
next
  case (Cons invId ids)
  obtain allKeys seen where acc: "acc = (allKeys, seen)" by (cases acc)
  show ?case
    unfolding acc by (simp add: Cons.IH split: option.splits)
qed

lemma getKeys_keys_pure:
  assumes "blacklistedKeys g' = blacklistedKeys g"
  shows "getKeys_keys g (\<lambda>j S. map_option Inr (recP j S)) es acc
           = map_option Inr (pure_keys g' recP es acc)"
proof (induction es arbitrary: acc)
  case Nil
  show ?case by simp
next
  case (Cons kv es)
  obtain k ids where kv: "kv = (k, ids)" by (cases kv)
  have b: "isKeyBlacklisted g' k = isKeyBlacklisted g k"
    using assms by (simp add: isKeyBlacklisted_def)
  show ?case
    unfolding kv by (simp add: b getKeys_ids_pure Cons.IH split: option.splits)
qed

lemma getKeys'_bound:
  assumes "lazyData g = Some (d, ps)"
  shows "getKeys' n g i seen = map_option Inr (pure_getKeys' n (g\<lparr>data := d, protos := ps\<rparr>) i seen)"
proof (induction n arbitrary: i seen)
  case 0
  show ?case by simp
next
  case (Suc n)
  let ?v = "g\<lparr>data := d, protos := ps\<rparr>"
  have iD: "invData g = Some (remap_data d)" and iP: "invProtos g = Some (remap_protos ps)"
    using assms by (simp_all add: invData_def invProtos_def)
  have rec: "getKeys' n g = (\<lambda>j S. map_option Inr (pure_getKeys' n ?v j S))"
    by (intro ext) (rule Suc.IH)
  have bl: "blacklistedKeys ?v = blacklistedKeys g" by simp
  show ?case
    by (simp add: iD iP rec getKeys_keys_pure [OF bl] getKeys_ids_pure Let_def
        split: option.splits)
qed

lemma getKeys'_current:
  "lazy_ok g \<Longrightarrow> getKeys' n g i seen = map_option Inr (pure_getKeys' n g i seen)"
  using getKeys'_bound [of g "data g" "protos g" n i seen] by (simp add: lazy_ok_def)

lemma getKeys_fuel_current: "lazy_ok g \<Longrightarrow> getKeys_fuel g = pure_fuel g"
  by (simp add: lazy_ok_def getKeys_fuel_def pure_fuel_def)


lemma getKeys'_root: "root g = JNumber i \<Longrightarrow> getKeys' (Suc n) g i seen = Some (Inr ([key g], insert i seen))"
  by simp



lemma cache_ok_empty: "keysCache g = [] \<Longrightarrow> cache_ok srt g"
  by (simp add: cache_ok_def)



lemma getKeys_computed:
  "map_of (keysCache g) i = None \<Longrightarrow>
   getKeys' (getKeys_fuel g) g i {} = Some (Inr (allKeys, seen)) \<Longrightarrow>
   getKeys srt g i
     = Some (Inr (srt getKeys_compare allKeys,
                  g\<lparr>keysCache := AList.update i (srt getKeys_compare allKeys) (keysCache g)\<rparr>))"
  by (simp add: getKeys_def Let_def)








text \<open>\<^verbatim>\<open>split\<close> undoes the joining of segments that hold no separator.\<close>

lemma split_no_sep: "c \<notin> set s \<Longrightarrow> split c s = [s]"
  by (induction s) auto

lemma split_append_sep: "c \<notin> set a \<Longrightarrow> split c (a @ c # b) = a # split c b"
  by (induction a) (auto split: list.splits)

lemma split_join:
  "c \<notin> set s0 \<Longrightarrow> \<forall>s \<in> set segs. c \<notin> set s \<Longrightarrow>
   split c (s0 @ concat (map (\<lambda>s. c # s) segs)) = s0 # segs"
proof (induction segs arbitrary: s0)
  case Nil
  then show ?case by (simp add: split_no_sep)
next
  case (Cons s segs)
  then show ?case by (simp add: split_append_sep)
qed

text \<open>Every key \<^verbatim>\<open>getKeys_\<close> returns for \<open>i\<close> renders segments that reach \<open>i\<close>.\<close>

lemma reaches_property:
  assumes "reaches g segs x" and "entry g x k = Some i" and "i \<noteq> 0" and "\<not> isType x"
    and "k \<noteq> ''__proto__''" and "CHR ''.'' \<notin> set k"
  shows "reaches g (segs @ [k]) i"
proof -
  from assms(1) obtain r where r: "root g = JNumber r" "lookup_loop g segs r = Some (Inr (Some x))"
    "\<forall>s \<in> set segs. CHR ''.'' \<notin> set s" by (auto simp: reaches_def)
  from assms(2) obtain m where "map_of (data g) x = Some m" "map_of m k = Some i"
    by (auto simp: entry_def split: option.splits)
  with assms have "lookup_walk g k x = Some (Inr (Some i))"
    by (simp add: lookup_walk_found)
  with assms(5) have "lookup_loop g [k] x = Some (Inr (Some i))" by simp
  with r have "lookup_loop g (segs @ [k]) r = Some (Inr (Some i))"
    by (simp add: lookup_loop_append)
  with r assms(6) show ?thesis by (auto simp: reaches_def)
qed

lemma reaches_proto:
  assumes "reaches g segs x" and "map_of (protos g) x = Some i" and "i \<noteq> 0" and "\<not> isType x"
  shows "reaches g (segs @ [''__proto__'']) i"
proof -
  from assms(1) obtain r where r: "root g = JNumber r" "lookup_loop g segs r = Some (Inr (Some x))"
    "\<forall>s \<in> set segs. CHR ''.'' \<notin> set s" by (auto simp: reaches_def)
  from assms have "lookup_loop g [''__proto__''] x = Some (Inr (Some i))"
    by (simp add: getPrototype_def)
  with r have "lookup_loop g (segs @ [''__proto__'']) r = Some (Inr (Some i))"
    by (simp add: lookup_loop_append)
  with r show ?thesis by (auto simp: reaches_def)
qed

lemma renders_snoc: "renders g segs @ CHR ''.'' # k = renders g (segs @ [k])"
  by (simp add: renders_def)

lemma sound_ids:
  assumes "pure_ids rec k ids acc = Some acc'"
    and "\<And>x s ps s'. x \<in> set ids \<Longrightarrow> rec x s = Some (ps, s') \<Longrightarrow> sound g x ps"
    and "\<And>x segs. x \<in> set ids \<Longrightarrow> reaches g segs x \<Longrightarrow> reaches g (segs @ [k]) i"
    and "sound g i (fst acc)"
  shows "sound g i (fst acc')"
  using assms
proof (induction ids arbitrary: acc)
  case Nil
  then show ?case by simp
next
  case (Cons x ids)
  obtain allKeys seen where acc: "acc = (allKeys, seen)" by (cases acc)
  have IH: "sound g i (fst acc')" if "pure_ids rec k ids a = Some acc'" "sound g i (fst a)" for a
    using Cons.IH [OF that(1) _ _ that(2)] Cons.prems(2,3) by (meson list.set_intros(2))
  show ?case
  proof (cases "x \<in> seen")
    case True
    with Cons.prems(1,4) show ?thesis using IH [of acc] by (simp add: acc)
  next
    case False
    with Cons.prems(1) obtain ps s' where r: "rec x seen = Some (ps, s')"
      and rest: "pure_ids rec k ids (allKeys @ map (\<lambda>prefix. prefix @ ''.'' @ k) ps, s') = Some acc'"
      by (auto simp: acc split: option.splits)
    have sx: "sound g x ps"
      using Cons.prems(2) [OF _ r] by simp
    have "sound g i (map (\<lambda>prefix. prefix @ ''.'' @ k) ps)"
      unfolding sound_def
    proof
      fix p assume "p \<in> set (map (\<lambda>prefix. prefix @ ''.'' @ k) ps)"
      then obtain prefix where "prefix \<in> set ps" and p: "p = prefix @ ''.'' @ k" by auto
      with sx obtain segs where "prefix = renders g segs" "reaches g segs x"
        by (auto simp: sound_def)
      with p Cons.prems(3) [of x segs] have "p = renders g (segs @ [k])" "reaches g (segs @ [k]) i"
        by (simp_all add: renders_snoc)
      then show "\<exists>segs. p = renders g segs \<and> reaches g segs i" by blast
    qed
    with Cons.prems(4) have "sound g i (allKeys @ map (\<lambda>prefix. prefix @ ''.'' @ k) ps)"
      by (auto simp: sound_def acc)
    then show ?thesis using IH [OF rest] by simp
  qed
qed

lemma sound_keys:
  assumes "pure_keys g rec m acc = Some acc'"
    and "\<And>k ids x s ps s'. (k, ids) \<in> set m \<Longrightarrow> x \<in> set ids \<Longrightarrow> rec x s = Some (ps, s') \<Longrightarrow>
           sound g x ps"
    and "\<And>k ids x segs. (k, ids) \<in> set m \<Longrightarrow> \<not> isKeyBlacklisted g k \<Longrightarrow> x \<in> set ids \<Longrightarrow>
           reaches g segs x \<Longrightarrow> reaches g (segs @ [k]) i"
    and "sound g i (fst acc)"
  shows "sound g i (fst acc')"
  using assms
proof (induction m arbitrary: acc)
  case Nil
  then show ?case by simp
next
  case (Cons e m)
  obtain k ids where e: "e = (k, ids)" by (cases e)
  have IH: "sound g i (fst acc')" if "pure_keys g rec m a = Some acc'" "sound g i (fst a)" for a
    using Cons.IH [OF that(1) _ _ that(2)] Cons.prems(2,3) by (meson list.set_intros(2))
  show ?case
  proof (cases "isKeyBlacklisted g k")
    case True
    with Cons.prems(1,4) show ?thesis using IH [of acc] by (simp add: e)
  next
    case False
    with Cons.prems(1) obtain acc1 where 1: "pure_ids rec k ids acc = Some acc1"
      and 2: "pure_keys g rec m acc1 = Some acc'"
      by (auto simp: e split: option.splits)
    have "sound g i (fst acc1)"
    proof (rule sound_ids [OF 1 _ _ Cons.prems(4)])
      fix x s ps s' assume "x \<in> set ids" "rec x s = Some (ps, s')"
      then show "sound g x ps" using Cons.prems(2) [of k ids x s ps s'] by (simp add: e)
    next
      fix x segs assume "x \<in> set ids" "reaches g segs x"
      then show "reaches g (segs @ [k]) i"
        using Cons.prems(3) [of k ids x segs] False by (simp add: e)
    qed
    then show ?thesis using IH [OF 2] by simp
  qed
qed

lemma graph_ok_data_key:
  "graph_ok g \<Longrightarrow> entry g x k = Some i \<Longrightarrow> identity x \<and> CHR ''.'' \<notin> set k"
proof -
  assume ok: "graph_ok g" and e: "entry g x k = Some i"
  then obtain m where m: "map_of (data g) x = Some m" "map_of m k = Some i"
    by (auto simp: entry_def split: option.splits)
  then have "(x, m) \<in> set (data g)" "(k, i) \<in> set m"
    by (auto dest: map_of_SomeD)
  with ok show ?thesis
    unfolding graph_ok_def by (metis (no_types, lifting) case_prodD fst_conv image_eqI)
qed

lemma graph_ok_protos_key: "graph_ok g \<Longrightarrow> map_of (protos g) x = Some i \<Longrightarrow> identity x"
  unfolding graph_ok_def by (metis protos_stored)

lemma pure_getKeys'_sound:
  "graph_ok g \<Longrightarrow> i \<noteq> 0 \<Longrightarrow> pure_getKeys' n g i seen = Some (ps, seen') \<Longrightarrow> sound g i ps"
proof (induction n arbitrary: i seen ps seen')
  case 0
  then show ?case by simp
next
  case (Suc n)
  let ?s1 = "insert i seen"
  have start: "sound g i (fst ([], ?s1))"
    by (simp add: sound_def)
  show ?case
  proof (cases "root g = JNumber i")
    case True
    with Suc.prems have "ps = [key g]" by simp
    moreover have "key g = renders g []" by (simp add: renders_def)
    moreover have "reaches g [] i" using True by (simp add: reaches_def)
    ultimately show ?thesis by (auto simp: sound_def)
  next
    case notroot: False
    show ?thesis
    proof (cases "remap_data (data g) i")
      case None
      with notroot Suc.prems show ?thesis by (auto simp: sound_def)
    next
      case (Some m)
      with notroot Suc.prems(3) obtain acc1 where
        1: "pure_keys g (pure_getKeys' n g) (sort_key fst m) ([], ?s1) = Some acc1"
        and 2: "(case remap_protos (protos g) i of None \<Rightarrow> Some acc1
                 | Some ips \<Rightarrow> pure_ids (pure_getKeys' n g) ''__proto__'' ips acc1) = Some (ps, seen')"
        by (auto split: option.splits)
      have s1: "sound g i (fst acc1)"
      proof (rule sound_keys [OF 1 _ _ start])
        fix k ids x s ps s'
        assume "(k, ids) \<in> set (sort_key fst m)" "x \<in> set ids" "pure_getKeys' n g x s = Some (ps, s')"
        moreover from this have "entry g x k = Some i" using invData_mem [OF Some] by simp
        then have "x \<noteq> 0" using graph_ok_data_key [OF Suc.prems(1)] identity_nonzero by blast
        ultimately show "sound g x ps" using Suc.IH [OF Suc.prems(1)] by blast
      next
        fix k ids x segs
        assume a: "(k, ids) \<in> set (sort_key fst m)" "\<not> isKeyBlacklisted g k" "x \<in> set ids"
          "reaches g segs x"
        then have e: "entry g x k = Some i" using invData_mem [OF Some] by simp
        from graph_ok_data_key [OF Suc.prems(1) e] have "\<not> isType x" "CHR ''.'' \<notin> set k"
          by (simp_all add: identity_not_isType)
        moreover from a(2) Suc.prems(1) have "k \<noteq> ''__proto__''"
          by (auto simp: isKeyBlacklisted_def graph_ok_def)
        ultimately show "reaches g (segs @ [k]) i"
          using reaches_property [OF a(4) e Suc.prems(2)] by simp
      qed
      show ?thesis
      proof (cases "remap_protos (protos g) i")
        case None
        with 2 s1 show ?thesis by auto
      next
        case ips: (Some ips)
        with 2 have 3: "pure_ids (pure_getKeys' n g) ''__proto__'' ips acc1 = Some (ps, seen')" by simp
        have "sound g i (fst (ps, seen'))"
        proof (rule sound_ids [OF 3 _ _ s1])
          fix x s ps s'
          assume "x \<in> set ips" "pure_getKeys' n g x s = Some (ps, s')"
          moreover from this have "map_of (protos g) x = Some i" using invProtos_mem [OF ips] by simp
          then have "x \<noteq> 0" using graph_ok_protos_key [OF Suc.prems(1)] identity_nonzero by blast
          ultimately show "sound g x ps" using Suc.IH [OF Suc.prems(1)] by blast
        next
          fix x segs
          assume a: "x \<in> set ips" "reaches g segs x"
          then have p: "map_of (protos g) x = Some i" using invProtos_mem [OF ips] by simp
          from graph_ok_protos_key [OF Suc.prems(1) p] have "\<not> isType x"
            by (simp add: identity_not_isType)
          then show "reaches g (segs @ [''__proto__'']) i"
            using reaches_proto [OF a(2) p Suc.prems(2)] by simp
        qed
        then show ?thesis by simp
      qed
    qed
  qed
qed

lemma concat_dots: "concat (map (\<lambda>s. ''.'' @ s) segs) = concat (map (\<lambda>s. CHR ''.'' # s) segs)"
  by simp

lemma getKeys_result:
  assumes "cache_ok srt g" and "getKeys srt g i = Some (Inr (keys, g'))"
  shows "\<exists>allKeys seen. getKeys' (getKeys_fuel g) g i {} = Some (Inr (allKeys, seen))
           \<and> keys = srt getKeys_compare allKeys"
proof (cases "map_of (keysCache g) i")
  case None
  with assms(2) show ?thesis
    by (auto simp: getKeys_def Let_def split: option.splits sum.splits)
next
  case (Some keys')
  with assms(2) have "keys = keys'" by (simp add: getKeys_def)
  with assms(1) Some show ?thesis unfolding cache_ok_def by blast
qed

text \<open>
  C1 (as amended). Let the graph be well formed (\<open>graph_ok\<close>: the keys of \<^verbatim>\<open>data\<close> and
  \<^verbatim>\<open>protos\<close> are identities, no stored property name holds a dot, \<^verbatim>\<open>__proto__\<close> is a
  blacklisted key), its indices current (\<open>lazy_ok\<close>), every list in its key cache the one
  \<^verbatim>\<open>getKeys\<close> computes now (\<open>cache_ok\<close>), its root an identity \<open>r\<close>, and \<open>p\<close> a path of
  \<^verbatim>\<open>getKeys(i)\<close>. If \<open>i\<close> is not the root, then \<open>p\<close> is the root's key, a dot and a rest,
  and \<^verbatim>\<open>lookup(rest)\<close> returns \<open>i\<close>. And \<^verbatim>\<open>lookup(p)\<close> itself returns \<open>i\<close> when the root
  refers to itself under its key (a key without a dot, other than \<^verbatim>\<open>__proto__\<close>).
\<close>

theorem getKeys_paths_resolve:
  assumes "host_sort srt" and "lazy_ok g" and "cache_ok srt g" and "graph_ok g"
    and "root g = JNumber r" and "i \<noteq> 0" and "getKeys srt g i = Some (Inr (keys, g'))"
    and "p \<in> set keys"
  shows "(i \<noteq> r \<longrightarrow>
            (\<exists>rest. p = key g @ ''.'' @ rest \<and> lookup g rest None = Some (Inr (Some i))))
       \<and> (entry g r (key g) = Some r \<and> CHR ''.'' \<notin> set (key g) \<and> key g \<noteq> ''__proto__'' \<longrightarrow>
            lookup g p None = Some (Inr (Some i)))"
proof -
  from getKeys_result [OF assms(3,7)]
  obtain allKeys seen where a': "getKeys' (getKeys_fuel g) g i {} = Some (Inr (allKeys, seen))"
    and k: "keys = srt getKeys_compare allKeys" by blast
  from a' have a: "pure_getKeys' (pure_fuel g) g i {} = Some (allKeys, seen)"
    unfolding getKeys_fuel_current [OF assms(2)] getKeys'_current [OF assms(2)] by auto
  from k assms(1,8) have "p \<in> set allKeys" by (simp add: host_sort_set)
  with pure_getKeys'_sound [OF assms(4,6) a] obtain segs where p: "p = renders g segs"
    and re: "reaches g segs i" by (auto simp: sound_def)
  from re assms(5) have walk: "lookup_loop g segs r = Some (Inr (Some i))"
    and nodots: "\<forall>s \<in> set segs. CHR ''.'' \<notin> set s" and empty: "segs = [] \<longrightarrow> i = r"
    by (auto simp: reaches_def)
  have 1: "\<exists>rest. p = key g @ ''.'' @ rest \<and> lookup g rest None = Some (Inr (Some i))" if "i \<noteq> r"
  proof -
    from that empty obtain s0 segs' where segs: "segs = s0 # segs'" by (cases segs) auto
    let ?rest = "s0 @ concat (map (\<lambda>s. CHR ''.'' # s) segs')"
    have "p = key g @ ''.'' @ ?rest" by (simp add: p renders_def segs)
    moreover have "split CHR ''.'' ?rest = segs"
      unfolding segs using nodots segs by (intro split_join) simp_all
    then have "lookup g ?rest None = Some (Inr (Some i))"
      using walk assms(5,6) by (simp add: lookup_def lookup'_def or_null_def)
    ultimately show ?thesis by blast
  qed
  have 2: "lookup g p None = Some (Inr (Some i))"
    if "entry g r (key g) = Some r" "CHR ''.'' \<notin> set (key g)" "key g \<noteq> ''__proto__''"
  proof -
    have "split CHR ''.'' p = key g # segs"
      unfolding p renders_def concat_dots using that(2) nodots by (intro split_join) simp_all
    moreover from graph_ok_data_key [OF assms(4) that(1)] have r: "\<not> isType r" "r \<noteq> 0"
      by (simp_all add: identity_not_isType identity_nonzero)
    from that(1) obtain m where "map_of (data g) r = Some m" "map_of m (key g) = Some r"
      by (auto simp: entry_def split: option.splits)
    with r have "lookup_walk g (key g) r = Some (Inr (Some r))"
      by (simp add: lookup_walk_found)
    with that(3) walk have "lookup_loop g (key g # segs) r = Some (Inr (Some i))" by simp
    ultimately show ?thesis
      using assms(5,6) by (simp add: lookup_def lookup'_def or_null_def)
  qed
  from 1 2 show ?thesis by blast
qed

lemma graph_ok_example: "graph_ok example_graph"
  by (simp add: graph_ok_def example_graph_def identity_def LAST_TYPE_def default_blacklistedKeys_def)

lemma graph_ok_window: "graph_ok window_graph"
  by (simp add: graph_ok_def window_graph_def example_graph_def identity_def LAST_TYPE_def
      default_blacklistedKeys_def)

text \<open>
  The function 11 in the example graph (key \<^verbatim>\<open>''\<close>, path \<^verbatim>\<open>.a.b\<close>, rest \<^verbatim>\<open>a.b\<close>) and in the
  graph with the key \<^verbatim>\<open>window\<close> (path \<^verbatim>\<open>window.a.b\<close>).
\<close>

theorem getKeys_paths_resolve_witness:
  "host_sort insertion_sort \<and> lazy_ok example_graph \<and> cache_ok insertion_sort example_graph
   \<and> graph_ok example_graph
   \<and> root example_graph = JNumber 9 \<and> (11::nat) \<noteq> 0 \<and> (11::nat) \<noteq> 9
   \<and> getKeys insertion_sort example_graph 11
       = Some (Inr ([''.a.b''], example_graph\<lparr>keysCache := [(11, [''.a.b''])]\<rparr>))
   \<and> ''.a.b'' \<in> set [''.a.b'']
   \<and> (\<exists>rest. ''.a.b'' = key example_graph @ ''.'' @ rest
         \<and> lookup example_graph rest None = Some (Inr (Some 11)))
   \<and> lazy_ok window_graph \<and> cache_ok insertion_sort window_graph \<and> graph_ok window_graph
   \<and> root window_graph = JNumber 9
   \<and> getKeys insertion_sort window_graph 11
       = Some (Inr ([''window.a.b''], window_graph\<lparr>keysCache := [(11, [''window.a.b''])]\<rparr>))
   \<and> entry window_graph 9 (key window_graph) = Some 9
   \<and> CHR ''.'' \<notin> set (key window_graph) \<and> key window_graph \<noteq> ''__proto__''
   \<and> lookup window_graph ''window.a.b'' None = Some (Inr (Some 11))"
proof -
  have h1: "host_sort insertion_sort" by (rule host_sort_insertion_sort)
  have l1: "lazy_ok example_graph" by (simp add: lazy_ok_def example_graph_def)
  have l2: "lazy_ok window_graph" by (simp add: lazy_ok_def window_graph_def example_graph_def)
  have h2: "cache_ok insertion_sort example_graph"
    by (rule cache_ok_empty) (simp add: example_graph_def)
  have h3: "graph_ok example_graph" by (rule graph_ok_example)
  have h4: "root example_graph = JNumber 9" by (simp add: example_graph_def)
  have h5: "(11::nat) \<noteq> 0" and h5': "(11::nat) \<noteq> 9" by simp_all
  have h6: "getKeys insertion_sort example_graph 11
       = Some (Inr ([''.a.b''], example_graph\<lparr>keysCache := [(11, [''.a.b''])]\<rparr>))"
    by code_simp
  have h7: "''.a.b'' \<in> set [''.a.b'']" by simp
  have w2: "cache_ok insertion_sort window_graph"
    by (rule cache_ok_empty) (simp add: window_graph_def example_graph_def)
  have w3: "graph_ok window_graph" by (rule graph_ok_window)
  have w4: "root window_graph = JNumber 9" by (simp add: window_graph_def example_graph_def)
  have w6: "getKeys insertion_sort window_graph 11
       = Some (Inr ([''window.a.b''], window_graph\<lparr>keysCache := [(11, [''window.a.b''])]\<rparr>))"
    by code_simp
  have w7: "''window.a.b'' \<in> set [''window.a.b'']" by simp
  have w8: "entry window_graph 9 (key window_graph) = Some 9"
    by (simp add: window_graph_def example_graph_def entry_def)
  have w9: "CHR ''.'' \<notin> set (key window_graph)" "key window_graph \<noteq> ''__proto__''"
    by (simp_all add: window_graph_def)
  have c1: "\<exists>rest. ''.a.b'' = key example_graph @ ''.'' @ rest
         \<and> lookup example_graph rest None = Some (Inr (Some 11))"
    using getKeys_paths_resolve [OF h1 l1 h2 h3 h4 h5 h6 h7] h5' by blast
  have c2: "lookup window_graph ''window.a.b'' None = Some (Inr (Some 11))"
    using getKeys_paths_resolve [OF h1 l2 w2 w3 w4 h5 w6 w7] w8 w9 by blast
  from h1 l1 h2 h3 h4 h5 h5' h6 h7 c1 l2 w2 w3 w4 w6 w8 w9 c2 show ?thesis by blast
qed

text \<open>
  C1 as stated fails in the example graph, a capture with the default key: \<^verbatim>\<open>.a.b\<close> is
  the path of 11 and \<^verbatim>\<open>lookup('.a.b')\<close> is null, because the first segment of the split path is
  the empty string, looked up as a property of the root; likewise the root's own path, the
  empty string. It also fails where a property name holds a dot (\<open>dotted_graph\<close>: the
  path \<^verbatim>\<open>window.a.b\<close> of 10 is split into three segments), and where the cache is stale:
  after \<^verbatim>\<open>getKeys(11)\<close> and \<^verbatim>\<open>removeIds([10])\<close> the cached path is still returned and neither
  it nor its rest resolves.
\<close>

theorem getKeys_path_not_resolved_counterexample:
  "map_option (map_sum id fst) (getKeys insertion_sort example_graph 11) = Some (Inr [''.a.b''])
   \<and> lookup example_graph ''.a.b'' None = Some (Inr None)
   \<and> map_option (map_sum id fst) (getKeys insertion_sort example_graph 9) = Some (Inr [''''])
   \<and> lookup example_graph '''' None = Some (Inr None)
   \<and> map_option (map_sum id fst) (getKeys insertion_sort dotted_graph 10)
       = Some (Inr [''window.a.b''])
   \<and> lookup dotted_graph ''window.a.b'' None = Some (Inr None)
   \<and> map_option (map_sum id fst) (getKeys insertion_sort (removeIds queried_graph [10]) 11)
       = Some (Inr [''.a.b''])
   \<and> lookup (removeIds queried_graph [10]) ''.a.b'' None = Some (Inr None)
   \<and> lookup (removeIds queried_graph [10]) ''a.b'' None = Some (Inl TypeError)"
  by code_simp

section \<open>Properties of serialization\<close>

text \<open>
  C5. \<^verbatim>\<open>fromJSON(g.toJSON())\<close> is claimed to answer \<^verbatim>\<open>getKeys\<close> as \<open>g\<close> does, for every
  captured graph. \<^verbatim>\<open>keysCache\<close> is not among \<^verbatim>\<open>jsonKeys\<close>, so the copy starts with an empty
  cache; \<^verbatim>\<open>capture\<close> empties the cache, \<^verbatim>\<open>removeIds\<close> does not. On the example capture,
  after \<^verbatim>\<open>getKeys(11)\<close> and then \<^verbatim>\<open>removeIds([10])\<close>, the graph still answers \<^verbatim>\<open>getKeys(11)\<close>
  with the cached path through the removed object, and its copy answers with no path.
\<close>

theorem json_round_trip_differs_after_removeIds:
  "getKeys insertion_sort example_graph 11 = Some (Inr ([''.a.b''], queried_graph))
   \<and> map_option (map_sum id fst) (getKeys insertion_sort (removeIds queried_graph [10]) 11)
       = Some (Inr [''.a.b''])
   \<and> map_option (map_sum id fst)
        (getKeys insertion_sort
           (fromJSON ''NodeJS/v6.0.0'' [] (JObject 98) (toJSON (removeIds queried_graph [10]))) 11)
       = Some (Inr [])"
  by code_simp

section \<open>Properties of capture\<close>

lemma run_plain:
  "plain cb \<Longrightarrow>
   run_callback n am e cb w =
     Some (None, w\<lparr>og := callback_graph e cb (og w), calls := calls w @ callback_calls cb\<rparr>)"
proof (induction cb arbitrary: w)
  case Noop
  show ?case by simp
next
  case (UserFn f)
  show ?case by simp
next
  case (CaptureDone prev cb)
  then show ?case by (cases cb) simp_all
next
  case (Deferred prev v k cb)
  then show ?case by simp
qed

lemma callback_graph_frame:
  "data (callback_graph e cb g) = data g \<and> protos (callback_graph e cb g) = protos g
   \<and> functions' (callback_graph e cb g) = functions' g \<and> metadata (callback_graph e cb g) = metadata g
   \<and> root (callback_graph e cb g) = root g \<and> key (callback_graph e cb g) = key g
   \<and> keysCache (callback_graph e cb g) = keysCache g \<and> q (callback_graph e cb g) = q g
   \<and> blacklistedObjects (callback_graph e cb g) = blacklistedObjects g
   \<and> blacklistedKeys (callback_graph e cb g) = blacklistedKeys g"
  by (induction cb arbitrary: g) simp_all

lemma callback_graph_timestamp:
  "timestamp g = Some (now e) \<Longrightarrow> timestamp (callback_graph e cb g) = Some (now e)"
  by (induction cb arbitrary: g) simp_all

lemma flush_loop_empty: "queue (q g) = [] \<Longrightarrow> flush_loop n am e g = (None, g)"
  by (cases n) simp_all

text \<open>
  C6 (as amended). For every idle graph (no capture in flight, an empty task queue, no
  deferred capture in its callbacks) and every object \<open>o\<close> of its blacklist,
  \<^verbatim>\<open>capture(o, opts)\<close> returns normally with empty \<^verbatim>\<open>data\<close>, \<^verbatim>\<open>protos\<close>, \<^verbatim>\<open>functions\<close> and
  \<^verbatim>\<open>metadata\<close>, with \<^verbatim>\<open>root\<close> the identity of \<open>o\<close>, and the done callbacks have run within the
  call: no \<^verbatim>\<open>flush\<close> is left pending, \<^verbatim>\<open>busy\<close> is cleared, the timestamp is set and
  \<^verbatim>\<open>opts.onDone\<close> is the last callback called.
\<close>

theorem capture_of_blacklisted_root:
  assumes "\<not> busy (og w)" and "queue (q (og w)) = []"
    and "plain (onTick (q (og w)))" and "plain (onDone (q (og w)))"
    and "JObject r \<in> set (blacklistedObjects (og w))"
  shows "\<exists>w'. capture (run_callback n am e) am e w (JObject r) opts_key opts_onDone = Some (None, w')
           \<and> data (og w') = [] \<and> protos (og w') = [] \<and> functions' (og w') = []
           \<and> metadata (og w') = []
           \<and> root (og w') = JNumber (UID (heap e r))
           \<and> \<not> busy (og w') \<and> timestamp (og w') = Some (now e)
           \<and> pendingFlushes w' = pendingFlushes w
           \<and> calls w' = calls w @ callback_calls (onTick (q (og w)))
                         @ callback_calls (onDone (q (og w)))
                         @ (case opts_onDone of None \<Rightarrow> [] | Some f \<Rightarrow> [f])"
proof -
  let ?done = "CaptureDone (onDone (q (og w))) opts_onDone"
  let ?g1 = "(og w)\<lparr>busy := True, timestamp := None,
                key := (case opts_key of None \<Rightarrow> [] | Some k \<Rightarrow> k),
                root := JNumber (UID (heap e r)),
                data := [], metadata := [], protos := [], functions' := [], keysCache := [],
                q := (q (og w))\<lparr>onDone := ?done\<rparr>\<rparr>"
  let ?w1 = "w\<lparr>og := ?g1\<rparr>"
  have c: "capture (run_callback n am e) am e w (JObject r) opts_key opts_onDone
             = flush (run_callback n am e) am e ?w1"
    using assms(1,5) by (simp add: capture_def Let_def typeof_def uidOf_def refOf_def)
  let ?tick = "onTick (q (og w))"
  let ?w2 = "?w1\<lparr>og := callback_graph e ?tick ?g1, calls := calls w @ callback_calls ?tick\<rparr>"
  have t: "run_callback n am e ?tick ?w1 = Some (None, ?w2)"
    using run_plain [OF assms(3), of n am e ?w1] by simp
  have q2: "q (og ?w2) = q ?g1" by (simp add: callback_graph_frame)
  then have e2: "queue (q (og ?w2)) = []" using assms(2) by simp
  let ?g2 = "callback_graph e ?tick ?g1"
  let ?w3 = "?w2\<lparr>og := callback_graph e ?done ?g2, calls := calls ?w2 @ callback_calls ?done\<rparr>"
  have p: "plain ?done" using assms(4) by simp
  have d: "run_callback n am e ?done ?w2 = Some (None, ?w3)"
    using run_plain [OF p, of n am e ?w2] by simp
  have f: "flush (run_callback n am e) am e ?w1 = Some (None, ?w3)"
    unfolding flush_def using t e2 q2 d
    by (simp add: flush_loop_empty)
  have ts: "timestamp (og ?w3) = Some (now e)"
    by (simp add: callback_graph_timestamp)
  have fr: "data (og ?w3) = [] \<and> protos (og ?w3) = [] \<and> functions' (og ?w3) = []
           \<and> metadata (og ?w3) = [] \<and> root (og ?w3) = JNumber (UID (heap e r))"
    by (simp add: callback_graph_frame)
  have "calls ?w3 = calls w @ callback_calls ?tick @ callback_calls (onDone (q (og w)))
                         @ (case opts_onDone of None \<Rightarrow> [] | Some f \<Rightarrow> [f])"
    by simp
  with c f ts fr show ?thesis by simp
qed


text \<open>A fresh graph captures itself (reference 99, which \<^verbatim>\<open>init\<close> blacklisted).\<close>

theorem capture_of_blacklisted_root_witness:
  "\<not> busy (og example_world) \<and> queue (q (og example_world)) = []
   \<and> plain (onTick (q (og example_world))) \<and> plain (onDone (q (og example_world)))
   \<and> JObject 99 \<in> set (blacklistedObjects (og example_world))
   \<and> (\<exists>w'. capture (run_callback 0 AssertThrows example_env) AssertThrows example_env example_world
               (JObject 99) None (Some 7) = Some (None, w')
          \<and> data (og w') = [] \<and> protos (og w') = [] \<and> functions' (og w') = []
          \<and> root (og w') = JNumber 199 \<and> \<not> busy (og w') \<and> pendingFlushes w' = 0
          \<and> calls w' = [7])"
proof -
  have h1: "\<not> busy (og example_world)" and h2: "queue (q (og example_world)) = []"
    and h3: "plain (onTick (q (og example_world)))" and h4: "plain (onDone (q (og example_world)))"
    and h5: "JObject 99 \<in> set (blacklistedObjects (og example_world))"
    by (simp_all add: example_world_def newObjectGraph_def newTaskQueue_def)
  have u: "UID (heap example_env 99) = 199" by (simp add: example_env_def example_heap_def)
  have c: "calls example_world = []" "pendingFlushes example_world = 0"
    "callback_calls (onTick (q (og example_world))) = []"
    "callback_calls (onDone (q (og example_world))) = []"
    by (simp_all add: example_world_def newObjectGraph_def newTaskQueue_def)
  from capture_of_blacklisted_root [OF h1 h2 h3 h4 h5, of 0 AssertThrows example_env None "Some 7"]
  have "\<exists>w'. capture (run_callback 0 AssertThrows example_env) AssertThrows example_env example_world
               (JObject 99) None (Some 7) = Some (None, w')
          \<and> data (og w') = [] \<and> protos (og w') = [] \<and> functions' (og w') = []
          \<and> root (og w') = JNumber 199 \<and> \<not> busy (og w') \<and> pendingFlushes w' = 0
          \<and> calls w' = [7]"
    unfolding u c by auto
  with h1 h2 h3 h4 h5 show ?thesis by blast
qed

text \<open>
  C6 as stated, for every graph, fails on a graph with a capture in flight: the call only
  replaces \<^verbatim>\<open>q.onDone\<close>; the stores keep what the capture in flight has put there and no
  callback is called.
\<close>

theorem capture_of_blacklisted_root_busy_counterexample:
  "busy (og busy_world) \<and> JObject 99 \<in> set (blacklistedObjects (og busy_world))
   \<and> (case capture (run_callback 0 AssertThrows example_env) AssertThrows example_env busy_world
              (JObject 99) None (Some 7) of
         Some (None, w') \<Rightarrow>
           data (og w') \<noteq> [] \<and> protos (og w') \<noteq> [] \<and> functions' (og w') \<noteq> []
           \<and> root (og w') = JNumber 9 \<and> calls w' = [] \<and> busy (og w')
       | _ \<Rightarrow> False)"
  by code_simp

section \<open>Properties of the graph builder\<close>

lemma kept_refl [simp]: "kept g g"
  by (simp add: kept_def)

lemma kept_trans: "kept g2 g1 \<Longrightarrow> kept g1 g \<Longrightarrow> kept g2 g"
  by (simp add: kept_def)

lemma kept_enqueue [simp]: "kept (enqueue g fs) g"
  by (simp add: kept_def enqueue_def)

lemma kept_fold_enqueue: "kept (fold (\<lambda>n g'. enqueue g' [f n]) names g) g"
proof (induction names arbitrary: g)
  case Nil
  show ?case by simp
next
  case (Cons n names)
  have "kept (fold (\<lambda>n g'. enqueue g' [f n]) names (enqueue g [f n])) (enqueue g [f n])"
    by (rule Cons.IH)
  then have "kept (fold (\<lambda>n g'. enqueue g' [f n]) names (enqueue g [f n])) g"
    by (rule kept_trans) (rule kept_enqueue)
  then show ?case by simp
qed

lemma kept_storeObject: "kept (snd (storeObject am g i)) g"
  by (simp add: storeObject_def kept_def)

lemma kept_storeMetadata: "kept (snd (storeMetadata am g i)) g"
  by (simp add: storeMetadata_def kept_def)

lemma kept_storeProto: "kept (snd (storeProto am g i p)) g"
  by (simp add: storeProto_def kept_def)

lemma kept_writeData [simp]: "kept (writeData g i name x) g"
  by (simp add: writeData_def kept_def split: option.splits)

lemma kept_writeMetadata [simp]: "kept (writeMetadata g i name x) g"
  by (simp add: writeMetadata_def kept_def split: option.splits)

lemma kept_functions [simp]: "kept (g\<lparr>functions' := fs\<rparr>) g"
  by (simp add: kept_def)

lemma kept_queue [simp]: "kept (g\<lparr>q := (q g)\<lparr>queue := fs\<rparr>\<rparr>) g"
  by (simp add: kept_def)

lemma kept_visitObject: "kept (snd (visitObject am e g v)) g"
proof (cases "maybeSkip e g v")
  case (Some skip)
  then show ?thesis by (simp add: visitObject_def)
next
  case None
  let ?g1 = "if typeof v = ''function'' then g\<lparr>functions' := functions' g @ [uidOf e v]\<rparr> else g"
  have 1: "kept ?g1 g" by simp
  obtain r2 g2 where s2: "storeObject am ?g1 (uidOf e v) = (r2, g2)"
    by (cases "storeObject am ?g1 (uidOf e v)")
  have "kept g2 ?g1" using kept_storeObject [of am ?g1 "uidOf e v"] s2 by simp
  then have 2: "kept g2 g" using 1 by (rule kept_trans)
  obtain r3 g3 where s3: "storeMetadata am g2 (uidOf e v) = (r3, g3)"
    by (cases "storeMetadata am g2 (uidOf e v)")
  have "kept g3 g2" using kept_storeMetadata [of am g2 "uidOf e v"] s3 by simp
  then have 3: "kept g3 g" using 2 by (rule kept_trans)
  let ?g4 = "enqueue g3 [VisitPrototype v]"
  let ?g5 = "enqueue ?g4 [VisitPropertyDescriptors v]"
  have 4: "kept ?g4 g" by (rule kept_trans [OF kept_enqueue 3])
  have 5: "kept ?g5 g" by (rule kept_trans [OF kept_enqueue 4])
  have 6: "kept (fold (\<lambda>n g'. enqueue g' [VisitProperty v n]) names ?g5) g" for names
    by (rule kept_trans [OF kept_fold_enqueue 5])
  show ?thesis
    using None s2 s3 2 3 6
    by (cases r2; cases r3) (simp_all add: visitObject_def Let_def)
qed

lemma kept_visitPrototype: "kept (snd (visitPrototype am e g v)) g"
proof -
  obtain r1 g1 where 1: "visitObject am e g (protoOf e v) = (r1, g1)"
    by (cases "visitObject am e g (protoOf e v)")
  with kept_visitObject [of am e g "protoOf e v"] have k1: "kept g1 g" by simp
  show ?thesis
  proof (cases r1)
    case (Inl err)
    with 1 k1 show ?thesis by (simp add: visitPrototype_def)
  next
    case (Inr p)
    with 1 have "visitPrototype am e g v = storeProto am g1 (uidOf e v) p"
      by (simp add: visitPrototype_def)
    moreover have "kept (snd (storeProto am g1 (uidOf e v) p)) g"
      by (rule kept_trans [OF kept_storeProto k1])
    ultimately show ?thesis by simp
  qed
qed

lemma kept_visitProperty: "kept (snd (visitProperty am e g v name)) g"
proof (cases "readProperty e v name")
  case Throws
  then show ?thesis by (simp add: visitProperty_def)
next
  case (Value x)
  obtain r1 g1 where 1: "visitObject am e g x = (r1, g1)" by (cases "visitObject am e g x")
  with kept_visitObject [of am e g x] have k1: "kept g1 g" by simp
  have "kept (writeData g1 i n y) g" for i n y
    by (rule kept_trans [OF kept_writeData k1])
  with Value 1 show ?thesis
    by (cases r1) (simp_all add: visitProperty_def)
qed

lemma kept_visitPropertyDescriptors: "kept (snd (visitPropertyDescriptors e g v)) g"
proof -
  let ?step = "\<lambda>name g'.
              if isKeyBlacklisted g' name \<or> isPropertyBlacklisted e g' v name then g'
              else (case getOwnPropertyDescriptor e v name of
                      None \<Rightarrow> g'
                    | Some d \<Rightarrow>
                        writeMetadata g' (uidOf e v) name
                          (map (\<lambda>(part, truthy). (part, if truthy then 1 else 0)) d))"
  have step: "kept (?step n g) g" for n g
    by (simp split: option.splits)
  have "kept (fold ?step names g) g" for names
  proof (induction names arbitrary: g)
    case Nil
    show ?case by simp
  next
    case (Cons n names)
    have "kept (fold ?step names (?step n g)) (?step n g)" by (rule Cons.IH)
    then have "kept (fold ?step names (?step n g)) g" using step by (rule kept_trans)
    then show ?case by simp
  qed
  then show ?thesis by (simp add: visitPropertyDescriptors_def)
qed

lemma kept_runTask: "kept (snd (runTask am e g f)) g"
  by (cases f)
     (simp_all add: runTask_def kept_visitPrototype kept_visitProperty kept_visitPropertyDescriptors)

lemma kept_flush_loop: "kept (snd (flush_loop n am e g)) g"
proof (induction n arbitrary: g)
  case 0
  show ?case by simp
next
  case (Suc n)
  show ?case
  proof (cases "queue (q g)")
    case Nil
    then show ?thesis by simp
  next
    case (Cons f fs)
    let ?g0 = "g\<lparr>q := (q g)\<lparr>queue := fs\<rparr>\<rparr>"
    obtain r1 g1 where 1: "runTask am e ?g0 f = (r1, g1)" by (cases "runTask am e ?g0 f")
    have "kept g1 ?g0" using kept_runTask [of am e ?g0 f] 1 by simp
    then have k1: "kept g1 g" using kept_queue by (rule kept_trans)
    show ?thesis
    proof (cases r1)
      case None
      with Cons 1 have "flush_loop (Suc n) am e g = flush_loop n am e g1" by simp
      moreover have "kept (snd (flush_loop n am e g1)) g"
        by (rule kept_trans [OF Suc.IH k1])
      ultimately show ?thesis by simp
    next
      case (Some err)
      with Cons 1 k1 show ?thesis by simp
    qed
  qed
qed

text \<open>
  In a graph whose root is the identity \<open>r\<close> and whose key is the empty string, the only
  key of the root is the empty string and its shortest key is null.
\<close>

lemma getShortestKey_of_root_with_default_key:
  assumes "host_sort srt" and "keysCache g = []" and "key g = []" and "root g = JNumber r"
  shows "map_option (map_sum id fst) (getKeys srt g r) = Some (Inr [[]])
       \<and> map_option (map_sum id fst) (getShortestKey srt g r) = Some (Inr None)"
proof -
  obtain n where f: "getKeys_fuel g = Suc n"
    by (cases "lazyData g") (auto simp: getKeys_fuel_def)
  have a: "getKeys' (getKeys_fuel g) g r {} = Some (Inr ([[]], {r}))"
    unfolding f getKeys'_root [OF assms(4)] using assms(3) by simp
  have c: "map_of (keysCache g) r = None" using assms(2) by simp
  have s: "srt getKeys_compare [[]] = [[]]"
    by (rule host_sort_short [OF assms(1)]) simp
  from getKeys_computed [OF c a, of srt] s show ?thesis
    by (simp add: getShortestKey_def first_or_null_def)
qed

text \<open>\<^verbatim>\<open>capture\<close> sets \<^verbatim>\<open>key\<close> and \<^verbatim>\<open>root\<close> and empties the key cache; nothing after it changes them.\<close>

lemma flush_keeps:
  assumes "plain (onTick (q (og w)))" and "plain (onDone (q (og w)))"
    and "flush (run_callback n am e) am e w = Some (x, w')"
  shows "key (og w') = key (og w) \<and> root (og w') = root (og w)
       \<and> keysCache (og w') = keysCache (og w)"
proof -
  let ?tick = "onTick (q (og w))"
  let ?g1 = "callback_graph e ?tick (og w)"
  let ?w1 = "w\<lparr>og := ?g1, calls := calls w @ callback_calls ?tick\<rparr>"
  have t: "run_callback n am e ?tick w = Some (None, ?w1)"
    by (rule run_plain [OF assms(1)])
  have f1: "key ?g1 = key (og w)" "root ?g1 = root (og w)" "keysCache ?g1 = keysCache (og w)"
    "q ?g1 = q (og w)"
    by (simp_all add: callback_graph_frame)
  obtain r2 g2 where l: "flush_loop (maxDequeueSize (q ?g1)) am e ?g1 = (r2, g2)"
    by (cases "flush_loop (maxDequeueSize (q ?g1)) am e ?g1")
  with kept_flush_loop [of "maxDequeueSize (q ?g1)" am e ?g1] have k: "kept g2 ?g1" by simp
  then have f2: "key g2 = key (og w)" "root g2 = root (og w)" "keysCache g2 = keysCache (og w)"
    "onDone (q g2) = onDone (q (og w))"
    using f1 by (simp_all add: kept_def)
  show ?thesis
  proof (cases r2)
    case (Some err)
    with assms(3) t l have "w' = ?w1\<lparr>og := g2\<rparr>" by (simp add: flush_def)
    with f2 show ?thesis by simp
  next
    case None
    show ?thesis
    proof (cases "queue (q g2) = []")
      case False
      with None assms(3) t l have "og w' = g2" by (auto simp: flush_def)
      with f2 show ?thesis by simp
    next
      case True
      let ?w2 = "?w1\<lparr>og := g2\<rparr>"
      have "plain (onDone (q g2))" using f2 assms(2) by simp
      from run_plain [OF this, of n am e ?w2] True None assms(3) t l
      have "og w' = callback_graph e (onDone (q g2)) g2" by (auto simp: flush_def)
      with f2 show ?thesis by (simp add: callback_graph_frame)
    qed
  qed
qed

lemma capture_sets_key_and_root:
  assumes "\<not> busy (og w)" and "plain (onTick (q (og w)))" and "plain (onDone (q (og w)))"
    and "capture (run_callback n am e) am e w v opts_key opts_onDone = Some (x, w')"
  shows "key (og w') = (case opts_key of None \<Rightarrow> [] | Some k \<Rightarrow> k)
       \<and> root (og w') = (if typeof v = ''object'' \<and> v \<noteq> JNull then JNumber (uidOf e v) else v)
       \<and> keysCache (og w') = []"
proof -
  let ?g1 = "(og w)\<lparr>busy := True, timestamp := None,
                key := (case opts_key of None \<Rightarrow> [] | Some k \<Rightarrow> k),
                root := (if typeof v = ''object'' \<and> v \<noteq> JNull then JNumber (uidOf e v) else v),
                data := [], metadata := [], protos := [], functions' := [], keysCache := [],
                q := (q (og w))\<lparr>onDone := CaptureDone (onDone (q (og w))) opts_onDone\<rparr>\<rparr>"
  have p1: "plain (onTick (q ?g1))" "plain (onDone (q ?g1))"
    using assms(2,3) by simp_all
  show ?thesis
  proof (cases "v \<in> set (blacklistedObjects (og w))")
    case True
    with assms(1,4) have "flush (run_callback n am e) am e (w\<lparr>og := ?g1\<rparr>) = Some (x, w')"
      by (simp add: capture_def Let_def)
    from flush_keeps [OF _ _ this] p1 show ?thesis by simp
  next
    case False
    obtain r2 g2 where v: "visitObject am e ?g1 v = (r2, g2)" by (cases "visitObject am e ?g1 v")
    with kept_visitObject [of am e ?g1 v] have k: "kept g2 ?g1" by simp
    then have f2: "key g2 = key ?g1" "root g2 = root ?g1" "keysCache g2 = keysCache ?g1"
      "onTick (q g2) = onTick (q ?g1)" "onDone (q g2) = onDone (q ?g1)"
      by (simp_all add: kept_def)
    show ?thesis
    proof (cases r2)
      case (Inl err)
      with False assms(1,4) v have "og w' = g2" by (auto simp: capture_def Let_def)
      with f2 show ?thesis by simp
    next
      case (Inr i)
      with False assms(1,4) v have "flush (run_callback n am e) am e (w\<lparr>og := g2\<rparr>) = Some (x, w')"
        by (simp add: capture_def Let_def)
      from flush_keeps [OF _ _ this] p1 f2 show ?thesis by simp
    qed
  qed
qed

text \<open>
  C9. After \<^verbatim>\<open>capture(o)\<close> of an object \<open>o\<close> without \<^verbatim>\<open>opts.key\<close> on an idle graph (whatever
  the call returned or threw, and whether or not it has finished), \<^verbatim>\<open>getKeys(root)\<close> is the
  one-element list holding the empty string and \<^verbatim>\<open>getShortestKey(root)\<close> is null.
\<close>

theorem getShortestKey_of_root_is_null:
  assumes "host_sort srt" and "\<not> busy (og w)"
    and "plain (onTick (q (og w)))" and "plain (onDone (q (og w)))"
    and "capture (run_callback n am e) am e w (JObject r) None opts_onDone = Some (x, w')"
  shows "map_option (map_sum id fst) (getKeys srt (og w') (UID (heap e r))) = Some (Inr [[]])
       \<and> map_option (map_sum id fst) (getShortestKey srt (og w') (UID (heap e r))) = Some (Inr None)"
proof -
  from capture_sets_key_and_root [OF assms(2-5)]
  have k: "key (og w') = []" and r: "root (og w') = JNumber (UID (heap e r))"
    and c: "keysCache (og w') = []"
    by (simp_all add: typeof_def uidOf_def refOf_def)
  from getShortestKey_of_root_with_default_key [OF assms(1) c k r] show ?thesis .
qed

text \<open>The capture of the example heap.\<close>

theorem getShortestKey_of_root_is_null_witness:
  "host_sort insertion_sort \<and> \<not> busy (og example_world)
   \<and> plain (onTick (q (og example_world))) \<and> plain (onDone (q (og example_world)))
   \<and> capture (run_callback 0 AssertThrows example_env) AssertThrows example_env example_world
        (JObject 0) None None
      = Some (None, \<lparr>og = example_graph, pendingFlushes = 0, calls = []\<rparr>)
   \<and> map_option (map_sum id fst) (getKeys insertion_sort example_graph 9) = Some (Inr [''''])
   \<and> map_option (map_sum id fst) (getShortestKey insertion_sort example_graph 9) = Some (Inr None)"
proof -
  have h1: "host_sort insertion_sort" by (rule host_sort_insertion_sort)
  have h2: "\<not> busy (og example_world)"
    and h3: "plain (onTick (q (og example_world)))" and h4: "plain (onDone (q (og example_world)))"
    by (simp_all add: example_world_def newObjectGraph_def newTaskQueue_def)
  note h5 = example_graph_captured
  have u: "UID (heap example_env 0) = 9" by (simp add: example_env_def example_heap_def)
  from getShortestKey_of_root_is_null [OF h1 h2 h3 h4 h5]
  have "map_option (map_sum id fst) (getKeys insertion_sort example_graph 9) = Some (Inr [''''])
      \<and> map_option (map_sum id fst) (getShortestKey insertion_sort example_graph 9) = Some (Inr None)"
    by (simp add: u)
  with h1 h2 h3 h4 h5 show ?thesis by blast
qed

end
